theory Spec2Isabelle
  imports Complex_Main
begin

section \<open>ECMAScript numbers\<close>

text \<open>
  The program computes with ECMAScript \<open>number\<close> values.  The model keeps the three
  non-finite values of that type apart (\<open>NaN\<close> and the two infinities) and takes every
  finite value to be a real number: arithmetic on finite values is exact, there is no
  rounding and there is one zero (treated as \<open>+0\<close> where the sign of a zero matters).
  All statements below are statements about this idealised arithmetic.
\<close>

datatype number = NaN | PosInf | NegInf | Fin real

instantiation number :: "{plus, minus, uminus, times, inverse, ord}"
begin

fun plus_number :: "number \<Rightarrow> number \<Rightarrow> number" where
  "plus_number NaN _ = NaN"
| "plus_number _ NaN = NaN"
| "plus_number PosInf NegInf = NaN"
| "plus_number NegInf PosInf = NaN"
| "plus_number PosInf _ = PosInf"
| "plus_number NegInf _ = NegInf"
| "plus_number _ PosInf = PosInf"
| "plus_number _ NegInf = NegInf"
| "plus_number (Fin a) (Fin b) = Fin (a + b)"

fun uminus_number :: "number \<Rightarrow> number" where
  "uminus_number NaN = NaN"
| "uminus_number PosInf = NegInf"
| "uminus_number NegInf = PosInf"
| "uminus_number (Fin a) = Fin (- a)"

fun minus_number :: "number \<Rightarrow> number \<Rightarrow> number" where
  "minus_number NaN _ = NaN"
| "minus_number _ NaN = NaN"
| "minus_number PosInf PosInf = NaN"
| "minus_number NegInf NegInf = NaN"
| "minus_number PosInf _ = PosInf"
| "minus_number NegInf _ = NegInf"
| "minus_number _ PosInf = NegInf"
| "minus_number _ NegInf = PosInf"
| "minus_number (Fin a) (Fin b) = Fin (a - b)"

fun times_number :: "number \<Rightarrow> number \<Rightarrow> number" where
  "times_number NaN _ = NaN"
| "times_number _ NaN = NaN"
| "times_number PosInf PosInf = PosInf"
| "times_number PosInf NegInf = NegInf"
| "times_number NegInf PosInf = NegInf"
| "times_number NegInf NegInf = PosInf"
| "times_number PosInf (Fin b) = (if b = 0 then NaN else if 0 < b then PosInf else NegInf)"
| "times_number NegInf (Fin b) = (if b = 0 then NaN else if 0 < b then NegInf else PosInf)"
| "times_number (Fin a) PosInf = (if a = 0 then NaN else if 0 < a then PosInf else NegInf)"
| "times_number (Fin a) NegInf = (if a = 0 then NaN else if 0 < a then NegInf else PosInf)"
| "times_number (Fin a) (Fin b) = Fin (a * b)"

fun divide_number :: "number \<Rightarrow> number \<Rightarrow> number" where
  "divide_number NaN _ = NaN"
| "divide_number _ NaN = NaN"
| "divide_number PosInf PosInf = NaN"
| "divide_number PosInf NegInf = NaN"
| "divide_number NegInf PosInf = NaN"
| "divide_number NegInf NegInf = NaN"
| "divide_number PosInf (Fin b) = (if 0 \<le> b then PosInf else NegInf)"
| "divide_number NegInf (Fin b) = (if 0 \<le> b then NegInf else PosInf)"
| "divide_number (Fin a) PosInf = Fin 0"
| "divide_number (Fin a) NegInf = Fin 0"
| "divide_number (Fin a) (Fin b) =
     (if b \<noteq> 0 then Fin (a / b)
      else if 0 < a then PosInf else if a < 0 then NegInf else NaN)"

fun inverse_number :: "number \<Rightarrow> number" where
  "inverse_number NaN = NaN"
| "inverse_number PosInf = Fin 0"
| "inverse_number NegInf = Fin 0"
| "inverse_number (Fin b) = (if b \<noteq> 0 then Fin (1 / b) else PosInf)"

fun less_number :: "number \<Rightarrow> number \<Rightarrow> bool" where
  "less_number NaN _ = False"
| "less_number _ NaN = False"
| "less_number PosInf _ = False"
| "less_number _ NegInf = False"
| "less_number NegInf _ = True"
| "less_number _ PosInf = True"
| "less_number (Fin a) (Fin b) = (a < b)"

fun less_eq_number :: "number \<Rightarrow> number \<Rightarrow> bool" where
  "less_eq_number NaN _ = False"
| "less_eq_number _ NaN = False"
| "less_eq_number _ PosInf = True"
| "less_eq_number NegInf _ = True"
| "less_eq_number PosInf _ = False"
| "less_eq_number _ NegInf = False"
| "less_eq_number (Fin a) (Fin b) = (a \<le> b)"

instance ..

end

text \<open>
  The remainder operator \<open>%\<close>: the result takes the sign of the dividend and is the
  dividend minus the divisor times the quotient truncated towards zero.
\<close>

definition trunc :: "real \<Rightarrow> int" where
  "trunc x = (if 0 \<le> x then \<lfloor>x\<rfloor> else \<lceil>x\<rceil>)"

fun rem :: "number \<Rightarrow> number \<Rightarrow> number" where
  "rem NaN _ = NaN"
| "rem _ NaN = NaN"
| "rem PosInf _ = NaN"
| "rem NegInf _ = NaN"
| "rem (Fin a) PosInf = Fin a"
| "rem (Fin a) NegInf = Fin a"
| "rem (Fin a) (Fin b) = (if b = 0 then NaN else Fin (a - b * of_int (trunc (a / b))))"

subsection \<open>The functions of \<open>Math\<close> the program calls\<close>

fun Math_sin :: "number \<Rightarrow> number" where
  "Math_sin (Fin x) = Fin (sin x)"
| "Math_sin _ = NaN"

fun Math_cos :: "number \<Rightarrow> number" where
  "Math_cos (Fin x) = Fin (cos x)"
| "Math_cos _ = NaN"

text \<open>
  The tangent is the quotient of sine and cosine, with the division of \<open>number\<close>: at a
  pole of the tangent (which no floating-point argument hits) the model gives an infinity.
\<close>

fun Math_tan :: "number \<Rightarrow> number" where
  "Math_tan (Fin x) = Fin (sin x) / Fin (cos x)"
| "Math_tan _ = NaN"

fun Math_asin :: "number \<Rightarrow> number" where
  "Math_asin (Fin x) = (if - 1 \<le> x \<and> x \<le> 1 then Fin (arcsin x) else NaN)"
| "Math_asin _ = NaN"

fun Math_acos :: "number \<Rightarrow> number" where
  "Math_acos (Fin x) = (if - 1 \<le> x \<and> x \<le> 1 then Fin (arccos x) else NaN)"
| "Math_acos _ = NaN"

fun Math_atan :: "number \<Rightarrow> number" where
  "Math_atan NaN = NaN"
| "Math_atan PosInf = Fin (pi / 2)"
| "Math_atan NegInf = Fin (- (pi / 2))"
| "Math_atan (Fin x) = Fin (arctan x)"

fun Math_abs :: "number \<Rightarrow> number" where
  "Math_abs NaN = NaN"
| "Math_abs PosInf = PosInf"
| "Math_abs NegInf = PosInf"
| "Math_abs (Fin x) = Fin \<bar>x\<bar>"

definition atan2 :: "real \<Rightarrow> real \<Rightarrow> real" where
  "atan2 y x =
     (if 0 < x then arctan (y / x)
      else if x < 0 then (if 0 \<le> y then arctan (y / x) + pi else arctan (y / x) - pi)
      else if 0 < y then pi / 2 else if y < 0 then - (pi / 2) else 0)"

fun Math_atan2 :: "number \<Rightarrow> number \<Rightarrow> number" where
  "Math_atan2 NaN _ = NaN"
| "Math_atan2 _ NaN = NaN"
| "Math_atan2 PosInf PosInf = Fin (pi / 4)"
| "Math_atan2 PosInf NegInf = Fin (3 * pi / 4)"
| "Math_atan2 PosInf (Fin x) = Fin (pi / 2)"
| "Math_atan2 NegInf PosInf = Fin (- (pi / 4))"
| "Math_atan2 NegInf NegInf = Fin (- (3 * pi / 4))"
| "Math_atan2 NegInf (Fin x) = Fin (- (pi / 2))"
| "Math_atan2 (Fin y) PosInf = Fin 0"
| "Math_atan2 (Fin y) NegInf = (if 0 \<le> y then Fin pi else Fin (- pi))"
| "Math_atan2 (Fin y) (Fin x) = Fin (atan2 y x)"

section \<open>The collaborators imported from \<open>./utility\<close>\<close>

text \<open>
  Modelled from the spec: \<open>toRadians\<close> of \<open>./utility\<close>, which is not among the
  sources; the specification gives it as the standard linear conversion from degrees to
  radians.
\<close>

definition toRadians :: "number \<Rightarrow> number" where
  "toRadians degrees = degrees * Fin (pi / 180)"

text \<open>
  Modelled from the spec: \<open>toDegrees\<close> of \<open>./utility\<close>, which is not among the
  sources; the specification gives it as the standard linear conversion from radians to
  degrees.
\<close>

definition toDegrees :: "number \<Rightarrow> number" where
  "toDegrees radians = radians * Fin (180 / pi)"

text \<open>
  The date constructor of the host and \<open>getJulianDate\<close> of \<open>./utility\<close> are not among
  the sources either.  They are parameters of the model: \<open>newDate\<close> maps the date string
  to a date object of some type \<open>'d\<close> (it never throws on a string), and
  \<open>getJulianDate\<close> maps that object to a number or throws an exception of some type
  \<open>'e\<close>.
\<close>

section \<open>The solar parameters\<close>

record SolarParameters =
  declination :: number
  equationOfTime :: number

subsection \<open>The version of \<open>src/utils/salahUtils.ts\<close>\<close>

definition normalizeAngle :: "number \<Rightarrow> number" where
  "normalizeAngle deg = rem (rem deg (Fin 360) + Fin 360) (Fin 360)"

text \<open>
  The local constants of \<open>calculateSolarParameters\<close>, each as a function of
  \<open>D = julianDate - 2451545.0\<close>, so that statements can speak about them.
\<close>

definition gDeg :: "number \<Rightarrow> number" where
  "gDeg D = normalizeAngle (Fin 357.529 + Fin 0.98560028 * D)"

definition qDeg :: "number \<Rightarrow> number" where
  "qDeg D = normalizeAngle (Fin 280.459 + Fin 0.98564736 * D)"

definition LDeg :: "number \<Rightarrow> number" where
  "LDeg D =
     normalizeAngle
       (qDeg D + Fin 1.915 * Math_sin (toRadians (gDeg D))
          + Fin 0.02 * Math_sin (Fin 2 * toRadians (gDeg D)))"

definition epsilon :: "number \<Rightarrow> number" where
  "epsilon D = toRadians (Fin 23.439 - Fin 0.00000036 * D)"

definition RAdeg :: "number \<Rightarrow> number" where
  "RAdeg D =
     normalizeAngle
       (toDegrees
          (Math_atan2 (Math_cos (epsilon D) * Math_sin (toRadians (LDeg D)))
             (Math_cos (toRadians (LDeg D)))))"

definition calculateSolarParameters :: "number \<Rightarrow> SolarParameters" where
  "calculateSolarParameters julianDate =
     (let D = julianDate - Fin 2451545.0;
          RAhrs = RAdeg D / Fin 15;
          decl = Math_asin (Math_sin (epsilon D) * Math_sin (toRadians (LDeg D)));
          eot0 = qDeg D / Fin 15 - RAhrs;
          eot1 = (if Fin 12 < eot0 then eot0 - Fin 24 else eot0);
          eot2 = (if eot1 < Fin (- 12) then eot1 + Fin 24 else eot1)
      in \<lparr>declination = decl, equationOfTime = eot2\<rparr>)"

subsection \<open>The version of \<open>src/unnamed/part_000\<close>\<close>

text \<open>
  The second source file has the same three functions; its \<open>calculateSolarParameters\<close>
  takes remainders where the first normalises.  Its names carry the suffix \<open>_naive\<close>.
  Its \<open>epsilon\<close> is the same expression as above.
\<close>

definition g_naive :: "number \<Rightarrow> number" where
  "g_naive D = toRadians (rem (Fin 357.529 + Fin 0.98560028 * D) (Fin 360))"

definition q_naive :: "number \<Rightarrow> number" where
  "q_naive D = rem (Fin 280.459 + Fin 0.98564736 * D) (Fin 360)"

definition L_naive :: "number \<Rightarrow> number" where
  "L_naive D =
     rem (q_naive D + Fin 1.915 * Math_sin (g_naive D) + Fin 0.02 * Math_sin (Fin 2 * g_naive D))
       (Fin 360)"

definition RA_naive :: "number \<Rightarrow> number" where
  "RA_naive D =
     toDegrees
       (Math_atan2 (Math_cos (epsilon D) * Math_sin (toRadians (L_naive D)))
          (Math_cos (toRadians (L_naive D))))
     / Fin 15"

definition calculateSolarParameters_naive :: "number \<Rightarrow> SolarParameters" where
  "calculateSolarParameters_naive julianDate =
     (let D = julianDate - Fin 2451545.0;
          decl = Math_asin (Math_sin (epsilon D) * Math_sin (toRadians (L_naive D)));
          eot = rem (q_naive D / Fin 15 - RA_naive D + Fin 24) (Fin 24)
      in \<lparr>declination = decl, equationOfTime = eot\<rparr>)"

section \<open>The hour angle\<close>

text \<open>\<open>calculateHourAngle\<close> is the same text in both source files.\<close>

definition calculateHourAngle :: "number \<Rightarrow> number \<Rightarrow> number \<Rightarrow> number" where
  "calculateHourAngle latitude decl angle =
     (let latitudeRad = toRadians latitude
      in Math_acos
           ((Math_sin (toRadians angle) - Math_sin latitudeRad * Math_sin decl)
            / (Math_cos latitudeRad * Math_cos decl)))"

section \<open>The prayer times\<close>

record PrayerTimes =
  Fajr :: number
  Shuruq :: number
  Dhuhr :: number
  Asr :: number
  Sunset :: number
  Maghrib :: number
  Isha :: number

text \<open>
  The body of \<open>calculatePrayerTimes\<close> after the solar parameters are known (lines 78 to
  120 of \<open>salahUtils.ts\<close>, lines 55 to 98 of \<open>part_000\<close>): the two files agree on it
  word for word.
\<close>

definition prayerTimesFrom :: "SolarParameters \<Rightarrow> number \<Rightarrow> number \<Rightarrow> PrayerTimes" where
  "prayerTimesFrom sp latitude longitude =
     (let decl = declination sp;
          eot = equationOfTime sp;
          noon = rem (Fin 12 - eot - longitude / Fin 15 + Fin 24) (Fin 24);
          fajrAngle = Fin 15;
          ishaAngle = Fin 15;
          shuruqAngle = Fin (- 0.833);
          fajrHA = calculateHourAngle latitude decl (- fajrAngle);
          ishaHA = calculateHourAngle latitude decl (- ishaAngle);
          shuruqHA = calculateHourAngle latitude decl shuruqAngle;
          fajr = rem (noon - toDegrees fajrHA / Fin 15 + Fin 24) (Fin 24);
          sunrise = rem (noon - toDegrees shuruqHA / Fin 15 + Fin 24) (Fin 24);
          sunset = rem (noon + toDegrees shuruqHA / Fin 15 + Fin 24) (Fin 24);
          isha = rem (noon + toDegrees ishaHA / Fin 15 + Fin 24) (Fin 24);
          maghribOffset = Fin 3 / Fin 60;
          maghrib = rem (sunset + maghribOffset + Fin 24) (Fin 24);
          phi = toRadians latitude;
          delta = decl;
          hAsr = Math_atan (Fin 1 / (Fin 2 + Math_tan (Math_abs (phi - delta))));
          asrHA = Math_acos
                    ((Math_sin hAsr - Math_sin phi * Math_sin delta)
                     / (Math_cos phi * Math_cos delta));
          asr = rem (noon + toDegrees asrHA / Fin 15 + Fin 24) (Fin 24)
      in \<lparr>Fajr = fajr, Shuruq = sunrise, Dhuhr = noon, Asr = asr,
          Sunset = sunset, Maghrib = maghrib, Isha = isha\<rparr>)"

definition calculatePrayerTimes ::
  "(string \<Rightarrow> 'd) \<Rightarrow> ('d \<Rightarrow> 'e + number) \<Rightarrow> number \<Rightarrow> number \<Rightarrow> string \<Rightarrow> 'e + PrayerTimes" where
  "calculatePrayerTimes newDate getJulianDate latitude longitude date =
     (let parsedDate = newDate date
      in case getJulianDate parsedDate of
           Inl e \<Rightarrow> Inl e
         | Inr julianDate \<Rightarrow>
             Inr (prayerTimesFrom (calculateSolarParameters julianDate) latitude longitude))"

definition calculatePrayerTimes_naive ::
  "(string \<Rightarrow> 'd) \<Rightarrow> ('d \<Rightarrow> 'e + number) \<Rightarrow> number \<Rightarrow> number \<Rightarrow> string \<Rightarrow> 'e + PrayerTimes" where
  "calculatePrayerTimes_naive newDate getJulianDate latitude longitude date =
     (let parsedDate = newDate date
      in case getJulianDate parsedDate of
           Inl e \<Rightarrow> Inl e
         | Inr julianDate \<Rightarrow>
             Inr (prayerTimesFrom (calculateSolarParameters_naive julianDate) latitude longitude))"

section \<open>Vocabulary of the statements\<close>

text \<open>A number is a finite value strictly between two bounds.\<close>

fun between :: "real \<Rightarrow> real \<Rightarrow> number \<Rightarrow> bool" where
  "between lo hi (Fin v) = (lo < v \<and> v < hi)"
| "between lo hi _ = False"

text \<open>A number is a time of day: a finite value in \<open>[0, 24)\<close>.\<close>

fun timeOfDay :: "number \<Rightarrow> bool" where
  "timeOfDay (Fin v) = (0 \<le> v \<and> v < 24)"
| "timeOfDay _ = False"

text \<open>Two numbers are finite and differ by at most a tolerance.\<close>

fun agreeWithin :: "real \<Rightarrow> number \<Rightarrow> number \<Rightarrow> bool" where
  "agreeWithin tol (Fin x) (Fin y) = (\<bar>x - y\<bar> \<le> tol)"
| "agreeWithin tol _ _ = False"


text \<open>
  A stand-in for \<open>getJulianDate\<close> in concrete evaluations: it returns the given Julian
  Date whatever the date object is.
\<close>

definition julianDateIs :: "real \<Rightarrow> 'd \<Rightarrow> unit + number" where
  "julianDateIs jd parsedDate = Inr (Fin jd)"

text \<open>A number is a finite value between two bounds, the bounds included.\<close>

fun inRange :: "real \<Rightarrow> real \<Rightarrow> number \<Rightarrow> bool" where
  "inRange lo hi (Fin v) = (lo \<le> v \<and> v \<le> hi)"
| "inRange lo hi _ = False"

text \<open>
  The argument that \<open>calculateHourAngle\<close> passes to \<open>Math.acos\<close>, under a name of its
  own.
\<close>

definition acosArgument :: "number \<Rightarrow> number \<Rightarrow> number \<Rightarrow> number" where
  "acosArgument latitude decl angle =
     (let latitudeRad = toRadians latitude
      in (Math_sin (toRadians angle) - Math_sin latitudeRad * Math_sin decl)
            / (Math_cos latitudeRad * Math_cos decl))"

text \<open>
  Sample calls for concrete evaluations: the date string \<open>1999-06-30\<close>, with a
  \<open>getJulianDate\<close> that returns 2451359.5 (the Julian Date of that day at 0h UTC, 185.5
  days before the epoch J2000.0) and the identity for the date constructor.
\<close>

definition sampleJD :: real where
  "sampleJD = 2451359.5"

definition sampleD :: real where
  "sampleD = - 185.5"

definition sampleTimes :: "real \<Rightarrow> real \<Rightarrow> PrayerTimes" where
  "sampleTimes latitude longitude =
     projr (calculatePrayerTimes id (julianDateIs sampleJD) (Fin latitude) (Fin longitude)
              ''1999-06-30'')"

definition sampleTimes_naive :: "real \<Rightarrow> real \<Rightarrow> PrayerTimes" where
  "sampleTimes_naive latitude longitude =
     projr (calculatePrayerTimes_naive id (julianDateIs sampleJD) (Fin latitude) (Fin longitude)
              ''1999-06-30'')"

section \<open>The assembling lines in double precision\<close>

text \<open>
  The definitions above compute with exact reals.  The program computes with doubles:
  in lines 88 to 95 and 110 of \<open>salahUtils.ts\<close> (65 to 72 and 88 of \<open>part_000\<close>) every
  sum and difference is rounded to the nearest double before the next operation.  This
  section follows these lines with the rounding written out, for the statements that
  depend on the last bits of a returned time.

  \<open>roundTiesToEven\<close> is the integer nearest to a real, the even one of the two at a tie.
\<close>

definition roundTiesToEven :: "real \<Rightarrow> int" where
  "roundTiesToEven r =
     (let f = \<lfloor>r\<rfloor>; d = r - of_int f
      in if d < 1 / 2 then f else if 1 / 2 < d then f + 1 else if even f then f else f + 1)"

text \<open>
  The distance between neighbouring doubles at a real \<open>x\<close>: \<open>2 ^ (e - 52)\<close> where
  \<open>2 ^ e \<le> |x| < 2 ^ (e + 1)\<close>, and \<open>2 ^ (- 1074)\<close> below the normal range.
\<close>

definition ulp :: "real \<Rightarrow> real" where
  "ulp x = 2 powr (of_int (max \<lfloor>log 2 \<bar>x\<bar>\<rfloor> (- 1022)) - 52)"

text \<open>The nearest multiple of that distance, ties to the even multiple.\<close>

definition toDouble :: "real \<Rightarrow> real" where
  "toDouble x = (if x = 0 then 0 else ulp x * of_int (roundTiesToEven (x / ulp x)))"

text \<open>
  The Number value of an exact result, as ECMAScript defines it for \<open>+\<close>, \<open>-\<close> and \<open>/\<close>:
  the nearest double, or an infinity when that would be \<open>2 ^ 1024\<close> or more in
  magnitude; NaN and the infinities are unchanged.
\<close>

definition double :: "number \<Rightarrow> number" where
  "double x =
     (case x of
        Fin v \<Rightarrow>
          if 2 ^ 1024 \<le> \<bar>toDouble v\<bar> then (if 0 < v then PosInf else NegInf)
          else Fin (toDouble v)
      | _ \<Rightarrow> x)"

text \<open>
  Lines 88 to 95 and 110 of \<open>salahUtils.ts\<close> (65 to 72 and 88 of \<open>part_000\<close>), as a
  function of the doubles they read: \<open>noon\<close>, and the values of \<open>toDegrees(fajrHA) / 15\<close>,
  \<open>toDegrees(ishaHA) / 15\<close>, \<open>toDegrees(shuruqHA) / 15\<close> and \<open>toDegrees(asrHA) / 15\<close>.  An
  expression \<open>(a \<plusminus> b + 24) % 24\<close> rounds \<open>a \<plusminus> b\<close>, rounds the sum with 24, and takes the
  remainder, which is exact on doubles.  The quotient \<open>3 / 60\<close> is rounded as well.
\<close>

definition assembleTimes ::
  "number \<Rightarrow> number \<Rightarrow> number \<Rightarrow> number \<Rightarrow> number \<Rightarrow> PrayerTimes" where
  "assembleTimes noon fajrHours ishaHours shuruqHours asrHours =
     (let fajr = rem (double (double (noon - fajrHours) + Fin 24)) (Fin 24);
          sunrise = rem (double (double (noon - shuruqHours) + Fin 24)) (Fin 24);
          sunset = rem (double (double (noon + shuruqHours) + Fin 24)) (Fin 24);
          isha = rem (double (double (noon + ishaHours) + Fin 24)) (Fin 24);
          maghribOffset = double (Fin 3 / Fin 60);
          maghrib = rem (double (double (sunset + maghribOffset) + Fin 24)) (Fin 24);
          asr = rem (double (double (noon + asrHours) + Fin 24)) (Fin 24)
      in \<lparr>Fajr = fajr, Shuruq = sunrise, Dhuhr = noon, Asr = asr,
          Sunset = sunset, Maghrib = maghrib, Isha = isha\<rparr>)"

text \<open>
  From the specification, not from the code: \<open>frac24(x)\<close> is \<open>((x % 24) + 24) % 24\<close>, here
  on doubles, with the sum rounded.
\<close>

definition frac24 :: "number \<Rightarrow> number" where
  "frac24 x = rem (double (rem x (Fin 24) + Fin 24)) (Fin 24)"


text \<open>
  Sample doubles for concrete evaluations, written as exact fractions.  They are the
  values that lines 74 to 86 and 98 to 107, evaluated in double arithmetic, hand to the
  assembling lines for the date \<open>1999-06-30\<close> at latitude 0: \<open>noon\<close> is
  \<open>12.05762943846527\<close> at longitude 0 and \<open>17.92429610513193\<close> at longitude -88, and
  \<open>toDegrees(fajrHA) / 15\<close> (the same double as \<open>toDegrees(ishaHA) / 15\<close>),
  \<open>toDegrees(shuruqHA) / 15\<close> and \<open>toDegrees(asrHA) / 15\<close> are \<open>7.090422203281806\<close>,
  \<open>6.060423904437147\<close> and \<open>4.368550509519818\<close>.
\<close>

definition sampleNoon :: real where
  "sampleNoon = 848480241344433 / 70368744177664"

definition sampleNoonWest :: real where
  "sampleNoonWest = 157663775898341 / 8796093022208"

definition sampleFajrHours :: real where
  "sampleFajrHours = 3991552849074929 / 562949953421312"

definition sampleShuruqHours :: real where
  "sampleShuruqHours = 6823430709432595 / 1125899906842624"

definition sampleAsrHours :: real where
  "sampleAsrHours = 4918550611705661 / 1125899906842624"

definition sampleAssembled :: PrayerTimes where
  "sampleAssembled =
     assembleTimes (Fin sampleNoon) (Fin sampleFajrHours) (Fin sampleFajrHours)
       (Fin sampleShuruqHours) (Fin sampleAsrHours)"

definition sampleAssembledWest :: PrayerTimes where
  "sampleAssembledWest =
     assembleTimes (Fin sampleNoonWest) (Fin sampleFajrHours) (Fin sampleFajrHours)
       (Fin sampleShuruqHours) (Fin sampleAsrHours)"

section \<open>The remainder operator\<close>

lemma rem_real_nonneg:
  fixes a b :: real
  assumes "0 \<le> a" "0 < b"
  shows "0 \<le> a - b * of_int (trunc (a / b))" "a - b * of_int (trunc (a / b)) < b"
proof -
  have q: "0 \<le> a / b" using assms by simp
  have t: "trunc (a / b) = \<lfloor>a / b\<rfloor>" using q by (simp add: trunc_def)
  have "b * of_int \<lfloor>a / b\<rfloor> \<le> b * (a / b)"
    using assms(2) by (intro mult_left_mono) auto
  then have "b * of_int \<lfloor>a / b\<rfloor> \<le> a" using assms(2) by simp
  then show "0 \<le> a - b * of_int (trunc (a / b))" using t by simp
  have "a / b < of_int \<lfloor>a / b\<rfloor> + 1" by linarith
  then have "b * (a / b) < b * (of_int \<lfloor>a / b\<rfloor> + 1)"
    using assms(2) by (intro mult_strict_left_mono) auto
  then have "a < b * (of_int \<lfloor>a / b\<rfloor> + 1)" using assms(2) by simp
  then show "a - b * of_int (trunc (a / b)) < b" using t by (simp add: algebra_simps)
qed

lemma rem_real_neg:
  fixes a b :: real
  assumes "a < 0" "0 < b"
  shows "a - b * of_int (trunc (a / b)) \<le> 0" "- b < a - b * of_int (trunc (a / b))"
proof -
  have q: "a / b < 0" using assms by (simp add: divide_neg_pos)
  have t: "trunc (a / b) = \<lceil>a / b\<rceil>" using q by (simp add: trunc_def)
  have "b * (a / b) \<le> b * of_int \<lceil>a / b\<rceil>"
    using assms(2) by (intro mult_left_mono) auto
  then have "a \<le> b * of_int \<lceil>a / b\<rceil>" using assms(2) by simp
  then show "a - b * of_int (trunc (a / b)) \<le> 0" using t by simp
  have "of_int \<lceil>a / b\<rceil> < a / b + 1" by linarith
  then have "b * of_int \<lceil>a / b\<rceil> < b * (a / b + 1)"
    using assms(2) by (intro mult_strict_left_mono) auto
  then have "b * of_int \<lceil>a / b\<rceil> < a + b" using assms(2) by (simp add: algebra_simps)
  then show "- b < a - b * of_int (trunc (a / b))" using t by (simp add: algebra_simps)
qed

section \<open>Solar noon and the latitude\<close>

text \<open>
  C10.  Two calls of \<open>calculatePrayerTimes\<close> with the same longitude and the same date
  return the same Dhuhr, whatever the two latitudes are (and the same exception where
  \<open>getJulianDate\<close> throws): the latitude does not enter the solar noon.  This holds for
  both source files.
\<close>

theorem Dhuhr_independent_of_latitude:
  "map_sum id Dhuhr (calculatePrayerTimes newDate getJulianDate latitude1 longitude date)
     = map_sum id Dhuhr (calculatePrayerTimes newDate getJulianDate latitude2 longitude date)
   \<and> map_sum id Dhuhr (calculatePrayerTimes_naive newDate getJulianDate latitude1 longitude date)
     = map_sum id Dhuhr (calculatePrayerTimes_naive newDate getJulianDate latitude2 longitude date)"
  by (simp add: calculatePrayerTimes_def calculatePrayerTimes_naive_def prayerTimesFrom_def Let_def
      split: sum.splits)

section \<open>The hour angle and the domain of the arc cosine\<close>

lemma calculateHourAngle_acos:
  "calculateHourAngle latitude decl angle = Math_acos (acosArgument latitude decl angle)"
  by (simp add: calculateHourAngle_def acosArgument_def Let_def)

lemma Math_acos_NaN: "\<not> (Fin (- 1) \<le> x \<and> x \<le> Fin 1) \<Longrightarrow> Math_acos x = NaN"
  by (cases x) auto

lemma Math_acos_inRange: "Fin (- 1) \<le> x \<Longrightarrow> x \<le> Fin 1 \<Longrightarrow> inRange 0 pi (Math_acos x)"
  by (cases x) (auto simp: arccos_lbound arccos_ubound)

lemma arg_60_0_90: "acosArgument (Fin 60) (Fin 0) (Fin 90) = Fin 2"
  by (simp add: acosArgument_def toRadians_def Let_def cos_60)

lemma arg_60_0_m90: "acosArgument (Fin 60) (Fin 0) (Fin (- 90)) = Fin (- 2)"
  by (simp add: acosArgument_def toRadians_def Let_def cos_60)

lemma arg_0_0_0: "acosArgument (Fin 0) (Fin 0) (Fin 0) = Fin 0"
  by (simp add: acosArgument_def toRadians_def Let_def)

lemma arg_0_60_90: "acosArgument (Fin 0) (Fin (pi / 3)) (Fin 90) = Fin 2"
  by (simp add: acosArgument_def toRadians_def Let_def cos_60)

text \<open>
  C1, as the code has it.  Whenever the argument of the arc cosine is not in \<open>[-1, 1]\<close>
  (it is below, above, infinite or itself not a number), \<open>calculateHourAngle\<close> returns
  the ordinary value \<open>NaN\<close>: the function has no other way to report the case.
\<close>

theorem hour_angle_NaN_outside_domain:
  "\<not> (Fin (- 1) \<le> acosArgument latitude decl angle \<and> acosArgument latitude decl angle \<le> Fin 1)
   \<Longrightarrow> calculateHourAngle latitude decl angle = NaN"
  unfolding calculateHourAngle_acos by (rule Math_acos_NaN)

text \<open>The theorem at latitude 0, declination \<open>pi / 3\<close> and elevation 90, where the argument is 2.\<close>

theorem hour_angle_NaN_outside_domain_witness:
  "calculateHourAngle (Fin 0) (Fin (pi / 3)) (Fin 90) = NaN"
  using hour_angle_NaN_outside_domain [of "Fin 0" "Fin (pi / 3)" "Fin 90"]
  by (simp add: arg_0_60_90)

text \<open>
  C1 as stated fails: at latitude 60, declination 0 and elevation 90 the argument of the
  arc cosine is 2, and the function returns \<open>NaN\<close>, not a failure of its own kind.
\<close>

theorem hour_angle_silent_NaN_counterexample:
  "acosArgument (Fin 60) (Fin 0) (Fin 90) = Fin 2
   \<and> calculateHourAngle (Fin 60) (Fin 0) (Fin 90) = NaN"
  by (simp add: calculateHourAngle_acos arg_60_0_90)

text \<open>
  C9, as the code has it.  When the argument of the arc cosine lies in \<open>[-1, 1]\<close>, the
  hour angle is a finite value in \<open>[0, pi]\<close>.
\<close>

theorem hour_angle_in_acos_range:
  "Fin (- 1) \<le> acosArgument latitude decl angle \<Longrightarrow> acosArgument latitude decl angle \<le> Fin 1
   \<Longrightarrow> inRange 0 pi (calculateHourAngle latitude decl angle)"
  unfolding calculateHourAngle_acos by (rule Math_acos_inRange)

text \<open>The theorem at latitude 0, declination 0 and elevation 0, where the argument is 0.\<close>

theorem hour_angle_in_acos_range_witness:
  "inRange 0 pi (calculateHourAngle (Fin 0) (Fin 0) (Fin 0))"
  using hour_angle_in_acos_range [of "Fin 0" "Fin 0" "Fin 0"]
  by (simp add: arg_0_0_0)

text \<open>
  C9 as stated fails: at latitude 60, declination 0 and elevation -90 the argument is -2
  and the result is \<open>NaN\<close>, not a value in \<open>[0, pi]\<close>.
\<close>

theorem hour_angle_range_counterexample:
  "calculateHourAngle (Fin 60) (Fin 0) (Fin (- 90)) = NaN
   \<and> \<not> inRange 0 pi (calculateHourAngle (Fin 60) (Fin 0) (Fin (- 90)))"
  by (simp add: calculateHourAngle_acos arg_60_0_m90)

section \<open>Validation of the inputs\<close>

text \<open>
  C7, as the code has it.  \<open>calculatePrayerTimes\<close> checks nothing itself: it ends with an
  exception exactly when \<open>getJulianDate\<close> throws one, and returns its seven values for
  every latitude, longitude and date string otherwise.  This holds for both source files.
\<close>

theorem no_validation:
  "isl (calculatePrayerTimes newDate getJulianDate latitude longitude date)
     = isl (getJulianDate (newDate date))
   \<and> isl (calculatePrayerTimes_naive newDate getJulianDate latitude longitude date)
     = isl (getJulianDate (newDate date))"
  by (simp add: calculatePrayerTimes_def calculatePrayerTimes_naive_def split: sum.splits)

text \<open>
  C7 as stated fails: with latitude 1000 and longitude 5000, far outside any range of
  coordinates, and the date string \<open>2024-06-21\<close> (Julian Date 2460482.5 at 0h UTC), both
  versions return a result.
\<close>

theorem out_of_range_coordinates_accepted:
  "\<not> isl (calculatePrayerTimes id (julianDateIs 2460482.5) (Fin 1000) (Fin 5000) ''2024-06-21'')
   \<and> \<not> isl (calculatePrayerTimes_naive id (julianDateIs 2460482.5) (Fin 1000) (Fin 5000) ''2024-06-21'')"
  by (simp add: calculatePrayerTimes_def calculatePrayerTimes_naive_def julianDateIs_def)

section \<open>Remainders and normalised angles\<close>

lemma rem_id:
  assumes "0 \<le> a" "a < b"
  shows "rem (Fin a) (Fin b) = Fin a"
proof -
  have "0 \<le> a / b" "a / b < 1" using assms by auto
  then have "trunc (a / b) = 0" by (simp add: trunc_def floor_eq_iff)
  then show ?thesis using assms by simp
qed

lemma rem_id_neg:
  assumes "a \<le> 0" "- b < a"
  shows "rem (Fin a) (Fin b) = Fin a"
proof (cases "a = 0")
  case True
  then show ?thesis using assms by (simp add: trunc_def)
next
  case False
  then have "a / b < 0" "- 1 < a / b" using assms by (auto simp: divide_neg_pos pos_less_divide_eq)
  then have "trunc (a / b) = 0" by (simp add: trunc_def ceiling_eq_iff)
  then show ?thesis using assms by simp
qed

lemma rem_cases:
  assumes "0 < b"
  shows "rem x (Fin b) = NaN \<or> (\<exists>r. rem x (Fin b) = Fin r \<and> - b < r \<and> r < b)"
proof (cases x)
  case (Fin a)
  show ?thesis
  proof (cases "0 \<le> a")
    case True
    from rem_real_nonneg [OF True assms] show ?thesis using Fin assms by auto
  next
    case False
    then have "a < 0" by simp
    from rem_real_neg [OF this assms] show ?thesis using Fin assms by auto
  qed
qed auto

lemma rem_nonneg:
  assumes "0 \<le> a" "0 < b"
  shows "\<exists>r. rem (Fin a) (Fin b) = Fin r \<and> 0 \<le> r \<and> r < b"
  using rem_real_nonneg [OF assms] assms by auto

lemma rem_shift:
  assumes "0 \<le> a" "0 < b"
  shows "rem (Fin (a + b)) (Fin b) = rem (Fin a) (Fin b)"
proof -
  have "(a + b) / b = a / b + 1" using assms by (simp add: add_divide_distrib)
  moreover have "0 \<le> a / b" using assms by simp
  ultimately have "trunc ((a + b) / b) = trunc (a / b) + 1" by (simp add: trunc_def)
  then show ?thesis using assms by (simp add: algebra_simps)
qed

lemma normalizeAngle_Fin:
  "normalizeAngle (Fin a) = Fin (a - 360 * of_int \<lfloor>a / 360\<rfloor>)"
proof (cases "0 \<le> a")
  case True
  obtain r where r: "rem (Fin a) (Fin 360) = Fin r" "0 \<le> r" "r < 360"
    using rem_nonneg [OF True, of 360] by auto
  have "rem (Fin (r + 360)) (Fin 360) = rem (Fin r) (Fin 360)" using r by (intro rem_shift) auto
  also have "\<dots> = Fin r" using r by (intro rem_id) auto
  finally have "normalizeAngle (Fin a) = Fin r" using r by (simp add: normalizeAngle_def)
  moreover have "r = a - 360 * of_int \<lfloor>a / 360\<rfloor>" using r(1) True by (simp add: trunc_def)
  ultimately show ?thesis by simp
next
  case False
  then have neg: "a < 0" by simp
  define r where "r = a - 360 * of_int \<lceil>a / 360\<rceil>"
  have t: "trunc (a / 360) = \<lceil>a / 360\<rceil>" using neg by (simp add: trunc_def)
  have rr: "rem (Fin a) (Fin 360) = Fin r" using t by (simp add: r_def)
  have bounds: "r \<le> 0" "- 360 < r" using rem_real_neg [OF neg, of 360] t by (auto simp: r_def)
  show ?thesis
  proof (cases "r = 0")
    case True
    then have "a / 360 = of_int \<lceil>a / 360\<rceil>" by (simp add: r_def)
    then have "of_int \<lfloor>a / 360\<rfloor> = a / 360" by (metis floor_of_int)
    then have "a - 360 * of_int \<lfloor>a / 360\<rfloor> = 0" by simp
    moreover have "normalizeAngle (Fin a) = Fin 0"
      using rr True by (simp add: normalizeAngle_def trunc_def)
    ultimately show ?thesis by simp
  next
    case False
    then have "0 \<le> r + 360" "r + 360 < 360" using bounds by auto
    then have "rem (Fin (r + 360)) (Fin 360) = Fin (r + 360)" by (intro rem_id)
    then have n: "normalizeAngle (Fin a) = Fin (r + 360)" using rr by (simp add: normalizeAngle_def)
    have "a / 360 \<noteq> of_int \<lceil>a / 360\<rceil>" using False by (auto simp: r_def)
    then have "\<lfloor>a / 360\<rfloor> = \<lceil>a / 360\<rceil> - 1"
      by (smt (verit, best) ceiling_altdef of_int_floor_cancel)
    then have "r + 360 = a - 360 * of_int \<lfloor>a / 360\<rfloor>" by (simp add: r_def algebra_simps)
    then show ?thesis using n by simp
  qed
qed

lemma floor_mod_range:
  fixes a :: real
  shows "0 \<le> a - 360 * of_int \<lfloor>a / 360\<rfloor>" "a - 360 * of_int \<lfloor>a / 360\<rfloor> < 360"
proof -
  define f :: real where "f = of_int \<lfloor>a / 360\<rfloor>"
  have "f \<le> a / 360" "a / 360 < f + 1" unfolding f_def by linarith+
  then have "0 \<le> a - 360 * f" "a - 360 * f < 360" by linarith+
  then show "0 \<le> a - 360 * of_int \<lfloor>a / 360\<rfloor>" "a - 360 * of_int \<lfloor>a / 360\<rfloor> < 360"
    unfolding f_def by blast+
qed

lemma normalizeAngle_cases:
  "normalizeAngle x = NaN \<or> (\<exists>v. normalizeAngle x = Fin v \<and> 0 \<le> v \<and> v < 360)"
proof (cases x)
  case (Fin a)
  then show ?thesis using normalizeAngle_Fin [of a] floor_mod_range [of a] by auto
qed (auto simp: normalizeAngle_def)

lemma normalizeAngle_id: "0 \<le> a \<Longrightarrow> a < 360 \<Longrightarrow> normalizeAngle (Fin a) = Fin a"
proof -
  assume "0 \<le> a" "a < 360"
  then have "\<lfloor>a / 360\<rfloor> = 0" by (simp add: floor_eq_iff)
  then show ?thesis by (simp add: normalizeAngle_Fin)
qed

section \<open>The assembled times\<close>

lemma Dhuhr_eq:
  "Dhuhr (prayerTimesFrom sp latitude longitude)
     = rem (Fin 12 - equationOfTime sp - longitude / Fin 15 + Fin 24) (Fin 24)"
  by (simp add: prayerTimesFrom_def Let_def)

lemma Fajr_eq:
  "Fajr (prayerTimesFrom sp latitude longitude)
     = rem (Dhuhr (prayerTimesFrom sp latitude longitude)
            - toDegrees (calculateHourAngle latitude (declination sp) (Fin (- 15))) / Fin 15 + Fin 24)
         (Fin 24)"
  by (simp add: prayerTimesFrom_def Let_def)

lemma Isha_eq:
  "Isha (prayerTimesFrom sp latitude longitude)
     = rem (Dhuhr (prayerTimesFrom sp latitude longitude)
            + toDegrees (calculateHourAngle latitude (declination sp) (Fin (- 15))) / Fin 15 + Fin 24)
         (Fin 24)"
  by (simp add: prayerTimesFrom_def Let_def)

lemma Shuruq_eq:
  "Shuruq (prayerTimesFrom sp latitude longitude)
     = rem (Dhuhr (prayerTimesFrom sp latitude longitude)
            - toDegrees (calculateHourAngle latitude (declination sp) (Fin (- 0.833))) / Fin 15 + Fin 24)
         (Fin 24)"
  by (simp add: prayerTimesFrom_def Let_def)

lemma Sunset_eq:
  "Sunset (prayerTimesFrom sp latitude longitude)
     = rem (Dhuhr (prayerTimesFrom sp latitude longitude)
            + toDegrees (calculateHourAngle latitude (declination sp) (Fin (- 0.833))) / Fin 15 + Fin 24)
         (Fin 24)"
  by (simp add: prayerTimesFrom_def Let_def)

lemma Maghrib_eq:
  "Maghrib (prayerTimesFrom sp latitude longitude)
     = rem (Sunset (prayerTimesFrom sp latitude longitude) + Fin 3 / Fin 60 + Fin 24) (Fin 24)"
  by (simp add: prayerTimesFrom_def Let_def)

lemma Asr_eq:
  "Asr (prayerTimesFrom sp latitude longitude)
     = rem (Dhuhr (prayerTimesFrom sp latitude longitude)
            + toDegrees
                (Math_acos
                   ((Math_sin (Math_atan (Fin 1 / (Fin 2
                        + Math_tan (Math_abs (toRadians latitude - declination sp)))))
                     - Math_sin (toRadians latitude) * Math_sin (declination sp))
                    / (Math_cos (toRadians latitude) * Math_cos (declination sp))))
              / Fin 15 + Fin 24)
         (Fin 24)"
  by (simp add: prayerTimesFrom_def Let_def)

lemma acos_hours_cases:
  "toDegrees (Math_acos x) / Fin 15 = NaN
   \<or> (\<exists>h. toDegrees (Math_acos x) / Fin 15 = Fin h \<and> 0 \<le> h \<and> h \<le> 12)"
proof (cases "Math_acos x")
  case (Fin a)
  then have a: "0 \<le> a" "a \<le> pi"
    by (cases x; auto simp: arccos_lbound arccos_ubound split: if_splits)+
  define t where "t = a / pi"
  have q: "0 \<le> t" "t \<le> 1" unfolding t_def using a by (auto simp: divide_le_eq)
  have e: "a * (180 / pi) / 15 = 12 * t" unfolding t_def by simp
  have "0 \<le> 12 * t" "12 * t \<le> 12" using q by linarith+
  then have "0 \<le> a * (180 / pi) / 15" "a * (180 / pi) / 15 \<le> 12" unfolding e by blast+
  then show ?thesis using Fin by (simp add: toDegrees_def)
next
  case NaN then show ?thesis by (simp add: toDegrees_def)
next
  case PosInf then show ?thesis by (cases x) (auto split: if_splits)
next
  case NegInf then show ?thesis by (cases x) (auto split: if_splits)
qed

lemma hourAngle_hours_cases:
  "toDegrees (calculateHourAngle latitude decl angle) / Fin 15 = NaN
   \<or> (\<exists>h. toDegrees (calculateHourAngle latitude decl angle) / Fin 15 = Fin h \<and> 0 \<le> h \<and> h \<le> 12)"
  unfolding calculateHourAngle_acos by (rule acos_hours_cases)

lemma Dhuhr_cases:
  "Dhuhr (prayerTimesFrom sp latitude longitude) = NaN
   \<or> (\<exists>n. Dhuhr (prayerTimesFrom sp latitude longitude) = Fin n \<and> - 24 < n \<and> n < 24)"
  unfolding Dhuhr_eq using rem_cases [of 24] by simp

lemma rem_NaN_left [simp]: "rem NaN y = NaN" by simp
lemma rem_PosInf_left [simp]: "rem PosInf y = NaN" by (cases y) auto
lemma rem_NegInf_left [simp]: "rem NegInf y = NaN" by (cases y) auto

lemma rem_finite_arg: "rem x y \<noteq> NaN \<Longrightarrow> \<exists>a. x = Fin a"
  by (cases x) auto

lemma plus_finite: "x + y = Fin a \<Longrightarrow> \<exists>u v. x = Fin u \<and> y = Fin v \<and> a = u + v"
  by (cases x; cases y) auto

lemma minus_finite: "x - y = Fin a \<Longrightarrow> \<exists>u v. x = Fin u \<and> y = Fin v \<and> a = u - v"
  by (cases x; cases y) auto

lemma Sunset_cases:
  "Sunset (prayerTimesFrom sp latitude longitude) = NaN
   \<or> timeOfDay (Sunset (prayerTimesFrom sp latitude longitude))"
proof -
  let ?d = "Dhuhr (prayerTimesFrom sp latitude longitude)"
  let ?H = "toDegrees (calculateHourAngle latitude (declination sp) (Fin (- 0.833))) / Fin 15"
  consider "?d = NaN" | "?H = NaN" | n h where "?d = Fin n" "- 24 < n" "?H = Fin h" "0 \<le> h"
    using Dhuhr_cases [of sp latitude longitude] hourAngle_hours_cases [of latitude "declination sp" "Fin (- 0.833)"]
    by blast
  then show ?thesis
  proof cases
    case 1 then show ?thesis unfolding Sunset_eq by simp
  next
    case 2 then show ?thesis unfolding Sunset_eq by (cases ?d) auto
  next
    case 3
    then have "0 \<le> n + h + 24" by simp
    from rem_nonneg [OF this, of 24] show ?thesis unfolding Sunset_eq using 3 by auto
  qed
qed

lemma time_plus:
  assumes "d = NaN \<or> timeOfDay d" "H = NaN \<or> (\<exists>h. H = Fin h \<and> 0 \<le> h \<and> h \<le> 12)"
  shows "rem (d + H + Fin 24) (Fin 24) = NaN \<or> timeOfDay (rem (d + H + Fin 24) (Fin 24))"
proof -
  consider "d = NaN" | "H = NaN" | n h where "d = Fin n" "0 \<le> n" "H = Fin h" "0 \<le> h"
    using assms by (cases d) auto
  then show ?thesis
  proof cases
    case 1 then show ?thesis by simp
  next
    case 2 then show ?thesis by (cases d) auto
  next
    case 3
    then have "0 \<le> n + h + 24" by simp
    from rem_nonneg [OF this, of 24] show ?thesis using 3 by auto
  qed
qed

lemma time_minus:
  assumes "d = NaN \<or> timeOfDay d" "H = NaN \<or> (\<exists>h. H = Fin h \<and> 0 \<le> h \<and> h \<le> 12)"
  shows "rem (d - H + Fin 24) (Fin 24) = NaN \<or> timeOfDay (rem (d - H + Fin 24) (Fin 24))"
proof -
  consider "d = NaN" | "H = NaN" | n h where "d = Fin n" "0 \<le> n" "H = Fin h" "h \<le> 12"
    using assms by (cases d) auto
  then show ?thesis
  proof cases
    case 1 then show ?thesis by simp
  next
    case 2 then show ?thesis by (cases d) auto
  next
    case 3
    then have "0 \<le> n - h + 24" by simp
    from rem_nonneg [OF this, of 24] show ?thesis using 3 by auto
  qed
qed

lemma Dhuhr_time:
  assumes "equationOfTime sp = NaN \<or> (\<exists>e. equationOfTime sp = Fin e \<and> e \<le> 24)"
    and "longitude \<le> Fin 180"
  shows "Dhuhr (prayerTimesFrom sp latitude longitude) = NaN
         \<or> timeOfDay (Dhuhr (prayerTimesFrom sp latitude longitude))"
proof -
  consider "equationOfTime sp = NaN" | "longitude = NegInf"
    | e l where "equationOfTime sp = Fin e" "e \<le> 24" "longitude = Fin l" "l \<le> 180"
    using assms by (cases longitude) auto
  then show ?thesis
  proof cases
    case 1 then show ?thesis unfolding Dhuhr_eq by simp
  next
    case 2 then show ?thesis unfolding Dhuhr_eq by (cases "equationOfTime sp") auto
  next
    case 3
    then have "0 \<le> 12 - e - l / 15 + 24" by simp
    from rem_nonneg [OF this, of 24] show ?thesis unfolding Dhuhr_eq using 3 by auto
  qed
qed

lemma times_or_NaN:
  fixes sp :: SolarParameters and latitude longitude :: number
  assumes "equationOfTime sp = NaN \<or> (\<exists>e. equationOfTime sp = Fin e \<and> e \<le> 24)"
    and "longitude \<le> Fin 180"
  defines "p \<equiv> prayerTimesFrom sp latitude longitude"
  shows "Fajr p = NaN \<or> timeOfDay (Fajr p)"
    and "Shuruq p = NaN \<or> timeOfDay (Shuruq p)"
    and "Dhuhr p = NaN \<or> timeOfDay (Dhuhr p)"
    and "Asr p = NaN \<or> timeOfDay (Asr p)"
    and "Sunset p = NaN \<or> timeOfDay (Sunset p)"
    and "Maghrib p = NaN \<or> timeOfDay (Maghrib p)"
    and "Isha p = NaN \<or> timeOfDay (Isha p)"
proof -
  have d: "Dhuhr p = NaN \<or> timeOfDay (Dhuhr p)"
    unfolding p_def using assms(1,2) by (rule Dhuhr_time)
  show "Dhuhr p = NaN \<or> timeOfDay (Dhuhr p)" by (rule d)
  show "Fajr p = NaN \<or> timeOfDay (Fajr p)"
    using time_minus [OF d hourAngle_hours_cases] unfolding p_def Fajr_eq .
  show "Shuruq p = NaN \<or> timeOfDay (Shuruq p)"
    using time_minus [OF d hourAngle_hours_cases] unfolding p_def Shuruq_eq .
  show "Isha p = NaN \<or> timeOfDay (Isha p)"
    using time_plus [OF d hourAngle_hours_cases] unfolding p_def Isha_eq .
  show "Sunset p = NaN \<or> timeOfDay (Sunset p)"
    unfolding p_def by (rule Sunset_cases)
  show "Asr p = NaN \<or> timeOfDay (Asr p)"
    using time_plus [OF d acos_hours_cases] unfolding p_def Asr_eq .
  show "Maghrib p = NaN \<or> timeOfDay (Maghrib p)"
  proof (cases "Sunset p")
    case (Fin s)
    then have "0 \<le> s" using Sunset_cases [of sp latitude longitude] by (auto simp: p_def)
    then have "0 \<le> s + 3 / 60 + 24" by simp
    from rem_nonneg [OF this, of 24] show ?thesis using Fin unfolding p_def Maghrib_eq by auto
  qed (auto simp: p_def Maghrib_eq)
qed

lemma Fajr_defined:
  assumes "Fajr (prayerTimesFrom sp latitude longitude) \<noteq> NaN"
  shows "Dhuhr (prayerTimesFrom sp latitude longitude) \<noteq> NaN"
    and "Isha (prayerTimesFrom sp latitude longitude) \<noteq> NaN"
proof -
  let ?d = "Dhuhr (prayerTimesFrom sp latitude longitude)"
  let ?H = "toDegrees (calculateHourAngle latitude (declination sp) (Fin (- 15))) / Fin 15"
  obtain a where "?d - ?H + Fin 24 = Fin a"
    using assms unfolding Fajr_eq by (metis rem_finite_arg)
  then obtain n h where nh: "?d = Fin n" "?H = Fin h" by (metis plus_finite minus_finite)
  show "?d \<noteq> NaN" using nh by simp
  show "Isha (prayerTimesFrom sp latitude longitude) \<noteq> NaN"
    unfolding Isha_eq using nh by simp
qed

lemma Shuruq_defined:
  assumes "Shuruq (prayerTimesFrom sp latitude longitude) \<noteq> NaN"
  shows "Sunset (prayerTimesFrom sp latitude longitude) \<noteq> NaN"
    and "Maghrib (prayerTimesFrom sp latitude longitude) \<noteq> NaN"
proof -
  let ?d = "Dhuhr (prayerTimesFrom sp latitude longitude)"
  let ?H = "toDegrees (calculateHourAngle latitude (declination sp) (Fin (- 0.833))) / Fin 15"
  obtain a where "?d - ?H + Fin 24 = Fin a"
    using assms unfolding Shuruq_eq by (metis rem_finite_arg)
  then obtain n h where nh: "?d = Fin n" "?H = Fin h" by (metis plus_finite minus_finite)
  then obtain s where s: "Sunset (prayerTimesFrom sp latitude longitude) = Fin s"
    unfolding Sunset_eq by simp
  then show "Sunset (prayerTimesFrom sp latitude longitude) \<noteq> NaN" by simp
  show "Maghrib (prayerTimesFrom sp latitude longitude) \<noteq> NaN"
    unfolding Maghrib_eq s by simp
qed

lemma fold_range:
  assumes "q = NaN \<or> (\<exists>v. q = Fin v \<and> 0 \<le> v \<and> v < 360)"
    and "r = NaN \<or> (\<exists>v. r = Fin v \<and> 0 \<le> v \<and> v < 360)"
  defines "e0 \<equiv> q / Fin 15 - r / Fin 15"
  defines "e1 \<equiv> (if Fin 12 < e0 then e0 - Fin 24 else e0)"
  defines "e2 \<equiv> (if e1 < Fin (- 12) then e1 + Fin 24 else e1)"
  shows "e2 = NaN \<or> inRange (- 12) 12 e2"
  using assms(1,2) unfolding e2_def e1_def e0_def by (cases q; cases r) auto

lemma eot_cases:
  "equationOfTime (calculateSolarParameters julianDate) = NaN
   \<or> inRange (- 12) 12 (equationOfTime (calculateSolarParameters julianDate))"
proof -
  define D where "D = julianDate - Fin 2451545"
  have q: "qDeg D = NaN \<or> (\<exists>v. qDeg D = Fin v \<and> 0 \<le> v \<and> v < 360)"
    unfolding qDeg_def by (rule normalizeAngle_cases)
  have r: "RAdeg D = NaN \<or> (\<exists>v. RAdeg D = Fin v \<and> 0 \<le> v \<and> v < 360)"
    unfolding RAdeg_def by (rule normalizeAngle_cases)
  show ?thesis
    using fold_range [OF q r, unfolded D_def]
    by (simp add: calculateSolarParameters_def Let_def)
qed

lemma eot_naive_cases:
  "equationOfTime (calculateSolarParameters_naive julianDate) = NaN
   \<or> between (- 24) 24 (equationOfTime (calculateSolarParameters_naive julianDate))"
proof -
  define X where
    "X = q_naive (julianDate - Fin 2451545) / Fin 15 - RA_naive (julianDate - Fin 2451545) + Fin 24"
  from rem_cases [of 24 X] show ?thesis
    by (auto simp: calculateSolarParameters_naive_def Let_def X_def)
qed

lemma sample_call:
  "calculatePrayerTimes id (julianDateIs sampleJD) (Fin latitude) (Fin longitude) ''1999-06-30''
     = Inr (sampleTimes latitude longitude)"
  by (simp add: sampleTimes_def calculatePrayerTimes_def julianDateIs_def)

lemma sample_call_naive:
  "calculatePrayerTimes_naive id (julianDateIs sampleJD) (Fin latitude) (Fin longitude) ''1999-06-30''
     = Inr (sampleTimes_naive latitude longitude)"
  by (simp add: sampleTimes_naive_def calculatePrayerTimes_naive_def julianDateIs_def)

lemma sampleTimes_eq:
  "sampleTimes latitude longitude
     = prayerTimesFrom (calculateSolarParameters (Fin sampleJD)) (Fin latitude) (Fin longitude)"
  by (simp add: sampleTimes_def calculatePrayerTimes_def julianDateIs_def)

lemma sampleTimes_naive_eq:
  "sampleTimes_naive latitude longitude
     = prayerTimesFrom (calculateSolarParameters_naive (Fin sampleJD)) (Fin latitude) (Fin longitude)"
  by (simp add: sampleTimes_naive_def calculatePrayerTimes_naive_def julianDateIs_def)

lemma result_from:
  assumes "calculatePrayerTimes newDate getJulianDate latitude longitude date = Inr r
           \<or> calculatePrayerTimes_naive newDate getJulianDate latitude longitude date = Inr r"
  shows "\<exists>jd. r = prayerTimesFrom (calculateSolarParameters jd) latitude longitude
              \<or> r = prayerTimesFrom (calculateSolarParameters_naive jd) latitude longitude"
  using assms
  by (auto simp: calculatePrayerTimes_def calculatePrayerTimes_naive_def split: sum.splits)

section \<open>The sample date\<close>

lemma deg_mono: "a \<le> b \<Longrightarrow> a * (pi / 180) \<le> b * (pi / 180)"
  by (intro mult_right_mono) auto

lemma deg_strict_mono: "a < b \<Longrightarrow> a * (pi / 180) < b * (pi / 180)"
  by (intro mult_strict_right_mono) auto


lemma cos_neg_quadrant2:
  assumes "pi / 2 < x" "x < pi"
  shows "cos x < 0"
proof -
  have "0 < cos (pi - x)" using assms by (intro cos_gt_zero) auto
  then show ?thesis by simp
qed

lemma sampleD: "Fin sampleJD - Fin 2451545.0 = Fin sampleD"
  by (simp add: sampleJD_def sampleD_def)


lemma gDeg_sample: "gDeg (Fin sampleD) = Fin 174.70014806"
  by (simp add: gDeg_def normalizeAngle_id sampleD_def)

lemma qDeg_sample: "qDeg (Fin sampleD) = Fin 97.62141472"
  by (simp add: qDeg_def normalizeAngle_id sampleD_def)

lemma epsilon_sample: "epsilon (Fin sampleD) = Fin (23.43906678 * (pi / 180))"
  by (simp add: epsilon_def toRadians_def sampleD_def)

lemma equation_of_centre_bounds:
  assumes "0 \<le> x" "x \<le> pi"
  shows "0 \<le> 1.915 * sin x + 0.02 * sin (2 * x)" "1.915 * sin x + 0.02 * sin (2 * x) \<le> 1.935"
proof -
  have s: "0 \<le> sin x" using assms by (rule sin_ge_zero)
  have a: "- sin x \<le> sin x * cos x" using mult_left_mono [of "- 1" "cos x" "sin x"] s by simp
  have b: "sin (2 * x) = 2 * (sin x * cos x)" by (simp add: sin_double)
  define t p where "t = sin x" and "p = sin x * cos x"
  have "- t \<le> p" "0 \<le> t" using a s by (simp_all add: t_def p_def)
  then have "0 \<le> 1.915 * t + 0.02 * (2 * p)" by simp
  then show "0 \<le> 1.915 * sin x + 0.02 * sin (2 * x)" unfolding b t_def p_def .
  define u where "u = sin (2 * x)"
  have "t \<le> 1" "u \<le> 1" by (simp_all add: t_def u_def)
  then have "1.915 * t + 0.02 * u \<le> 1.935" by simp
  then show "1.915 * sin x + 0.02 * sin (2 * x) \<le> 1.935" unfolding t_def u_def .
qed

lemma g_naive_sample: "g_naive (Fin sampleD) = Fin (174.70014806 * (pi / 180))"
  by (simp add: g_naive_def sampleD_def rem_id toRadians_def del: rem.simps)

lemma q_naive_sample: "q_naive (Fin sampleD) = Fin 97.62141472"
  by (simp add: q_naive_def sampleD_def rem_id del: rem.simps)

lemma LDeg_sample:
  obtains L where "LDeg (Fin sampleD) = Fin L" "L_naive (Fin sampleD) = Fin L"
    "97.62141472 \<le> L" "L \<le> 99.55641472"
proof -
  define x :: real where "x = 174.70014806 * (pi / 180)"
  have "0 * (pi / 180) \<le> x" "x \<le> 180 * (pi / 180)" unfolding x_def by (intro deg_mono; simp)+
  then have x: "0 \<le> x" "x \<le> pi" by simp_all
  define c where "c = 1.915 * sin x + 0.02 * sin (2 * x)"
  have c: "0 \<le> c" "c \<le> 1.935" unfolding c_def using equation_of_centre_bounds [OF x] by auto
  have "LDeg (Fin sampleD) = normalizeAngle (Fin (97.62141472 + c))"
    by (simp add: LDeg_def gDeg_sample qDeg_sample toRadians_def c_def x_def add.assoc)
  also have "\<dots> = Fin (97.62141472 + c)" using c by (intro normalizeAngle_id) auto
  finally have 1: "LDeg (Fin sampleD) = Fin (97.62141472 + c)" .
  have "L_naive (Fin sampleD) = rem (Fin (97.62141472 + c)) (Fin 360)"
    by (simp add: L_naive_def g_naive_sample q_naive_sample c_def x_def add.assoc del: rem.simps)
  also have "\<dots> = Fin (97.62141472 + c)" using c by (intro rem_id) auto
  finally have 2: "L_naive (Fin sampleD) = Fin (97.62141472 + c)" .
  show ?thesis using 1 2 c by (intro that [of "97.62141472 + c"]) auto
qed

lemma atan2_quadrant2:
  assumes "pi / 2 < x" "x < pi" "0 < c" "c < 1"
  shows "x < atan2 (c * sin x) (cos x)" "atan2 (c * sin x) (cos x) < pi"
proof -
  have cx: "cos x < 0" using assms by (intro cos_neg_quadrant2)
  have sx: "0 < sin x" using assms by (intro sin_gt_zero) auto
  define t where "t = sin x / cos x"
  have t: "t < 0" unfolding t_def using cx sx by (simp add: divide_pos_neg)
  have a: "atan2 (c * sin x) (cos x) = arctan (c * t) + pi"
    using cx sx assms(3) by (simp add: atan2_def t_def)
  have "tan (x - pi) = t" using tan_periodic_pi [of "x - pi"] by (simp add: t_def tan_def)
  then have "arctan t = x - pi" using assms arctan_tan [of "x - pi"] by auto
  moreover have "t < c * t" using t assms(4) by simp
  ultimately have "x - pi < arctan (c * t)" using arctan_monotone [of t "c * t"] by simp
  then show "x < atan2 (c * sin x) (cos x)" unfolding a by simp
  have "c * t < 0" using t assms(3) by (simp add: mult_pos_neg)
  then have "arctan (c * t) < 0" by simp
  then show "atan2 (c * sin x) (cos x) < pi" unfolding a by simp
qed

lemma sample_epsilon_bounds:
  defines "eps \<equiv> 23.43906678 * (pi / 180)"
  shows "0 < eps" "eps < pi / 3" "0 < cos eps" "cos eps < 1" "0 < sin eps"
proof -
  show e0: "0 < eps" unfolding eps_def by simp
  have "eps < 60 * (pi / 180)" unfolding eps_def by (intro deg_strict_mono) simp
  then show e1: "eps < pi / 3" by simp
  show "0 < cos eps" using e0 e1 by (intro cos_gt_zero) auto
  have "cos eps < cos 0" using e0 e1 by (intro cos_monotone_0_pi) auto
  then show "cos eps < 1" by simp
  show "0 < sin eps" using e0 e1 by (intro sin_gt_zero) auto
qed

lemma sample_solar_parameters:
  obtains e d where
    "calculateSolarParameters (Fin sampleJD) = \<lparr>declination = Fin d, equationOfTime = Fin e\<rparr>"
    "calculateSolarParameters_naive (Fin sampleJD)
       = \<lparr>declination = Fin d, equationOfTime = Fin (e + 24)\<rparr>"
    "- 6 < e" "e < 0" "0 \<le> d" "d \<le> pi / 3"
proof -
  define eps :: real where "eps = 23.43906678 * (pi / 180)"
  note eb = sample_epsilon_bounds [folded eps_def]
  have eps: "epsilon (Fin sampleD) = Fin eps" by (simp add: epsilon_sample eps_def)
  obtain L where L: "LDeg (Fin sampleD) = Fin L" "L_naive (Fin sampleD) = Fin L"
    and Lb: "97.62141472 \<le> L" "L \<le> 99.55641472"
    by (rule LDeg_sample)
  define x where "x = L * (pi / 180)"
  have "90 * (pi / 180) < x" "x < 180 * (pi / 180)"
    unfolding x_def using Lb by (intro deg_strict_mono; simp)+
  then have x: "pi / 2 < x" "x < pi" by simp_all
  define A where "A = atan2 (cos eps * sin x) (cos x)"
  have A: "x < A" "A < pi" unfolding A_def using atan2_quadrant2 [OF x eb(3,4)] by auto
  define R where "R = A * (180 / pi)"
  have Rx: "R * (pi / 180) = A" unfolding R_def by simp
  have "L * (pi / 180) < R * (pi / 180)" "R * (pi / 180) < 180 * (pi / 180)"
    unfolding Rx using A by (simp_all add: x_def)
  then have R: "L < R" "R < 180" by simp_all
  have RA: "RAdeg (Fin sampleD) = Fin R"
  proof -
    have "RAdeg (Fin sampleD) = normalizeAngle (Fin R)"
      by (simp add: RAdeg_def eps L toRadians_def toDegrees_def A_def x_def R_def)
    also have "\<dots> = Fin R" using R Lb by (intro normalizeAngle_id) auto
    finally show ?thesis .
  qed
  define e where "e = 97.62141472 / 15 - R / 15"
  have e: "- 6 < e" "e < 0" unfolding e_def using R Lb by simp_all
  define y where "y = sin eps * sin x"
  have sx: "0 < sin x" "sin x \<le> 1" using x by (auto intro: sin_gt_zero)
  have y0: "0 \<le> y" unfolding y_def using eb(5) sx by simp
  have "sin eps * sin x \<le> sin eps * 1" using eb(5) sx by (intro mult_left_mono) auto
  then have y1: "y \<le> sin eps" by (simp add: y_def)
  have y2: "y \<le> 1" using y1 sin_le_one [of eps] by linarith
  define d where "d = arcsin y"
  have "arcsin 0 \<le> arcsin y" using y0 y2 by (intro arcsin_le_arcsin) auto
  then have d0: "0 \<le> d" by (simp add: d_def)
  have "arcsin y \<le> arcsin (sin eps)" using y0 y1 by (intro arcsin_le_arcsin) auto
  also have "\<dots> = eps" using eb by (intro arcsin_sin) auto
  finally have d1: "d \<le> pi / 3" using eb(2) by (simp add: d_def)
  have decl: "Math_asin (Math_sin (epsilon (Fin sampleD)) * Math_sin (toRadians (LDeg (Fin sampleD))))
                = Fin d"
    using y0 y2 by (simp add: eps L toRadians_def d_def y_def x_def)
  have 1: "calculateSolarParameters (Fin sampleJD) = \<lparr>declination = Fin d, equationOfTime = Fin e\<rparr>"
    unfolding calculateSolarParameters_def sampleD Let_def decl
    using e by (simp add: qDeg_sample RA e_def)
  have RAn: "RA_naive (Fin sampleD) = Fin (R / 15)"
    by (simp add: RA_naive_def eps L toRadians_def toDegrees_def A_def x_def R_def)
  have "rem (Fin (e + 24)) (Fin 24) = Fin (e + 24)" using e by (intro rem_id) auto
  then have 2: "calculateSolarParameters_naive (Fin sampleJD)
       = \<lparr>declination = Fin d, equationOfTime = Fin (e + 24)\<rparr>"
    unfolding calculateSolarParameters_naive_def sampleD Let_def
    using decl by (simp add: q_naive_sample RAn L e_def del: rem.simps)
  show ?thesis using 1 2 e d0 d1 by (rule that)
qed


lemma cos_ge_half:
  assumes "0 \<le> d" "d \<le> pi / 3"
  shows "1 / 2 \<le> cos d"
proof -
  have "cos (pi / 3) \<le> cos d" using assms by (intro cos_monotone_0_pi_le) auto
  then show ?thesis by (simp add: cos_60)
qed

lemma Math_acos_quotient:
  assumes "- (1 / 2) \<le> s" "s \<le> 1 / 2" "1 / 2 \<le> c"
  shows "\<exists>h. Math_acos (Fin s / Fin c) = Fin h"
proof -
  have c: "0 < c" using assms by simp
  have "s / c \<le> 1" "- 1 \<le> s / c" using assms c by (simp_all add: pos_divide_le_eq pos_le_divide_eq)
  then show ?thesis using c by simp
qed

lemma equator_hour_angle:
  assumes "0 \<le> d" "d \<le> pi / 3" "- 30 \<le> a" "a \<le> 30"
  shows "\<exists>h. calculateHourAngle (Fin 0) (Fin d) (Fin a) = Fin h"
proof -
  define x where "x = a * (pi / 180)"
  have "(- 30) * (pi / 180) \<le> x" "x \<le> 30 * (pi / 180)"
    unfolding x_def using assms by (intro deg_mono; simp)+
  then have x: "- (pi / 6) \<le> x" "x \<le> pi / 6" by simp_all
  have "sin (- (pi / 6)) \<le> sin x" "sin x \<le> sin (pi / 6)"
    using x by (intro sin_monotone_2pi_le; simp)+
  then have s: "- (1 / 2) \<le> sin x" "sin x \<le> 1 / 2" by (simp_all add: sin_30)
  have "calculateHourAngle (Fin 0) (Fin d) (Fin a) = Math_acos (Fin (sin x) / Fin (cos d))"
    by (simp add: calculateHourAngle_def toRadians_def x_def del: divide_number.simps)
  then show ?thesis using Math_acos_quotient [OF s cos_ge_half [OF assms(1,2)]] by simp
qed

lemma sin_arctan_le:
  assumes "0 \<le> t"
  shows "0 \<le> sin (arctan t)" "sin (arctan t) \<le> t"
proof -
  have "1 \<le> sqrt (1 + t\<^sup>2)" by (intro real_sqrt_ge_one) simp
  then have "t / sqrt (1 + t\<^sup>2) \<le> t / 1" using assms by (intro frac_le) auto
  then show "sin (arctan t) \<le> t" by (simp add: sin_arctan)
  show "0 \<le> sin (arctan t)" using assms by (simp add: sin_arctan)
qed

lemma equator_asr_angle:
  assumes "0 \<le> d" "d \<le> pi / 3"
  shows "\<exists>h. Math_acos
           ((Math_sin (Math_atan (Fin 1 / (Fin 2
                + Math_tan (Math_abs (toRadians (Fin 0) - Fin d)))))
             - Math_sin (toRadians (Fin 0)) * Math_sin (Fin d))
            / (Math_cos (toRadians (Fin 0)) * Math_cos (Fin d))) = Fin h"
proof -
  have c: "1 / 2 \<le> cos d" using assms by (rule cos_ge_half)
  have sd: "0 \<le> sin d" using assms by (intro sin_ge_zero) (auto intro: order_trans)
  define t where "t = 1 / (2 + sin d / cos d)"
  have q: "0 \<le> sin d / cos d" using sd c by simp
  then have "1 / (2 + sin d / cos d) \<le> 1 / 2" by (intro frac_le) auto
  then have t: "0 \<le> t" "t \<le> 1 / 2" using q by (simp_all add: t_def)
  have s: "- (1 / 2) \<le> sin (arctan t)" "sin (arctan t) \<le> 1 / 2"
    using sin_arctan_le [OF t(1)] t(2) by linarith+
  have "Math_abs (toRadians (Fin 0) - Fin d) = Fin d" using assms by (simp add: toRadians_def)
  moreover have "Math_tan (Fin d) = Fin (sin d / cos d)" using c by simp
  moreover have "Fin 1 / (Fin 2 + Fin (sin d / cos d)) = Fin t" using q by (simp add: t_def)
  ultimately have "(Math_sin (Math_atan (Fin 1 / (Fin 2
                + Math_tan (Math_abs (toRadians (Fin 0) - Fin d)))))
             - Math_sin (toRadians (Fin 0)) * Math_sin (Fin d))
            / (Math_cos (toRadians (Fin 0)) * Math_cos (Fin d))
          = Fin (sin (arctan t)) / Fin (cos d)"
    by (simp add: toRadians_def del: divide_number.simps)
  then show ?thesis using Math_acos_quotient [OF s c] by simp
qed

section \<open>The sample call at the equator\<close>

lemma equator_defined:
  assumes "declination sp = Fin d" "0 \<le> d" "d \<le> pi / 3" "equationOfTime sp = Fin e"
  shows "Fajr (prayerTimesFrom sp (Fin 0) (Fin l)) \<noteq> NaN"
    and "Shuruq (prayerTimesFrom sp (Fin 0) (Fin l)) \<noteq> NaN"
    and "Asr (prayerTimesFrom sp (Fin 0) (Fin l)) \<noteq> NaN"
proof -
  obtain n where n: "Dhuhr (prayerTimesFrom sp (Fin 0) (Fin l)) = Fin n"
    unfolding Dhuhr_eq assms(4) by simp
  obtain h1 where h1: "calculateHourAngle (Fin 0) (Fin d) (Fin (- 15)) = Fin h1"
    using equator_hour_angle [OF assms(2,3), of "- 15"] by auto
  obtain h2 where h2: "calculateHourAngle (Fin 0) (Fin d) (Fin (- 0.833)) = Fin h2"
    using equator_hour_angle [OF assms(2,3), of "- 0.833"] by auto
  obtain h3 where h3: "Math_acos
           ((Math_sin (Math_atan (Fin 1 / (Fin 2
                + Math_tan (Math_abs (toRadians (Fin 0) - Fin d)))))
             - Math_sin (toRadians (Fin 0)) * Math_sin (Fin d))
            / (Math_cos (toRadians (Fin 0)) * Math_cos (Fin d))) = Fin h3"
    using equator_asr_angle [OF assms(2,3)] by auto
  show "Fajr (prayerTimesFrom sp (Fin 0) (Fin l)) \<noteq> NaN"
    unfolding Fajr_eq n assms(1) h1 by (simp add: toDegrees_def)
  show "Shuruq (prayerTimesFrom sp (Fin 0) (Fin l)) \<noteq> NaN"
    unfolding Shuruq_eq n assms(1) h2 by (simp add: toDegrees_def)
  show "Asr (prayerTimesFrom sp (Fin 0) (Fin l)) \<noteq> NaN"
    unfolding Asr_eq n assms(1) h3 by (simp add: toDegrees_def)
qed

lemma sample_defined:
  "Fajr (sampleTimes 0 l) \<noteq> NaN" "Shuruq (sampleTimes 0 l) \<noteq> NaN" "Asr (sampleTimes 0 l) \<noteq> NaN"
  "Fajr (sampleTimes_naive 0 l) \<noteq> NaN" "Shuruq (sampleTimes_naive 0 l) \<noteq> NaN"
  "Asr (sampleTimes_naive 0 l) \<noteq> NaN"
proof -
  obtain e d where sp:
    "calculateSolarParameters (Fin sampleJD) = \<lparr>declination = Fin d, equationOfTime = Fin e\<rparr>"
    "calculateSolarParameters_naive (Fin sampleJD)
       = \<lparr>declination = Fin d, equationOfTime = Fin (e + 24)\<rparr>"
    and d: "0 \<le> d" "d \<le> pi / 3"
    by (rule sample_solar_parameters)
  note a = equator_defined [of "calculateSolarParameters (Fin sampleJD)" d e l, folded sampleTimes_eq]
  note b = equator_defined [of "calculateSolarParameters_naive (Fin sampleJD)" d "e + 24" l,
              folded sampleTimes_naive_eq]
  show "Fajr (sampleTimes 0 l) \<noteq> NaN" "Shuruq (sampleTimes 0 l) \<noteq> NaN" "Asr (sampleTimes 0 l) \<noteq> NaN"
    using a d sp(1) by simp_all
  show "Fajr (sampleTimes_naive 0 l) \<noteq> NaN" "Shuruq (sampleTimes_naive 0 l) \<noteq> NaN"
    "Asr (sampleTimes_naive 0 l) \<noteq> NaN"
    using b d sp(2) by simp_all
qed

section \<open>Properties of the returned times\<close>

text \<open>
  C4.  For a longitude of at most 180 degrees, so for every valid longitude in
  \<open>[-180, 180]\<close>, whenever \<open>calculatePrayerTimes\<close> (of either source file) returns a
  result in which Fajr, Shuruq and Asr are numbers (no arc cosine left its domain), each
  of the seven returned values is a finite value in \<open>[0, 24)\<close>.
\<close>

theorem times_of_day:
  assumes "longitude \<le> Fin 180"
    and "calculatePrayerTimes newDate getJulianDate latitude longitude date = Inr r
         \<or> calculatePrayerTimes_naive newDate getJulianDate latitude longitude date = Inr r"
    and "Fajr r \<noteq> NaN" and "Shuruq r \<noteq> NaN" and "Asr r \<noteq> NaN"
  shows "timeOfDay (Fajr r) \<and> timeOfDay (Shuruq r) \<and> timeOfDay (Dhuhr r) \<and> timeOfDay (Asr r)
         \<and> timeOfDay (Sunset r) \<and> timeOfDay (Maghrib r) \<and> timeOfDay (Isha r)"
proof -
  obtain sp where r: "r = prayerTimesFrom sp latitude longitude"
    and e: "equationOfTime sp = NaN \<or> (\<exists>e. equationOfTime sp = Fin e \<and> e \<le> 24)"
  proof -
    from result_from [OF assms(2)] obtain jd where
      "r = prayerTimesFrom (calculateSolarParameters jd) latitude longitude
       \<or> r = prayerTimesFrom (calculateSolarParameters_naive jd) latitude longitude" by blast
    then show ?thesis
    proof
      assume a: "r = prayerTimesFrom (calculateSolarParameters jd) latitude longitude"
      have "equationOfTime (calculateSolarParameters jd) = NaN
            \<or> (\<exists>e. equationOfTime (calculateSolarParameters jd) = Fin e \<and> e \<le> 24)"
        using eot_cases [of jd] by (cases "equationOfTime (calculateSolarParameters jd)") auto
      with a show ?thesis by (rule that)
    next
      assume a: "r = prayerTimesFrom (calculateSolarParameters_naive jd) latitude longitude"
      have "equationOfTime (calculateSolarParameters_naive jd) = NaN
            \<or> (\<exists>e. equationOfTime (calculateSolarParameters_naive jd) = Fin e \<and> e \<le> 24)"
        using eot_naive_cases [of jd]
        by (cases "equationOfTime (calculateSolarParameters_naive jd)") auto
      with a show ?thesis by (rule that)
    qed
  qed
  note t = times_or_NaN [OF e assms(1), of latitude, folded r]
  have "Dhuhr r \<noteq> NaN" "Isha r \<noteq> NaN" using Fajr_defined [of sp latitude longitude] assms(3) r by auto
  moreover have "Sunset r \<noteq> NaN" "Maghrib r \<noteq> NaN"
    using Shuruq_defined [of sp latitude longitude] assms(4) r by auto
  ultimately show ?thesis using t assms(3,4,5) by auto
qed

lemma zero_le_180: "Fin 0 \<le> Fin 180" by simp

text \<open>The theorem of C4 at the sample call with latitude 0 and longitude 0.\<close>

theorem times_of_day_witness:
  "timeOfDay (Fajr (sampleTimes 0 0)) \<and> timeOfDay (Shuruq (sampleTimes 0 0))
   \<and> timeOfDay (Dhuhr (sampleTimes 0 0)) \<and> timeOfDay (Asr (sampleTimes 0 0))
   \<and> timeOfDay (Sunset (sampleTimes 0 0)) \<and> timeOfDay (Maghrib (sampleTimes 0 0))
   \<and> timeOfDay (Isha (sampleTimes 0 0))"
  by (rule times_of_day [OF zero_le_180 disjI1 [OF sample_call] sample_defined(1,2,3)])

section \<open>The two versions of the solar parameters\<close>

text \<open>
  C2 at a failing input.  For the Julian Date 2451359.5 the \<open>calculateSolarParameters\<close>
  of \<open>src/unnamed/part_000\<close> returns an equation of time strictly between 18 and 24
  hours, outside \<open>(-12, 12)\<close>.
\<close>

theorem naive_equation_of_time_near_24:
  "between 18 24 (equationOfTime (calculateSolarParameters_naive (Fin sampleJD)))"
proof -
  obtain e d where
    "calculateSolarParameters_naive (Fin sampleJD)
       = \<lparr>declination = Fin d, equationOfTime = Fin (e + 24)\<rparr>"
    "- 6 < e" "e < 0"
    by (rule sample_solar_parameters)
  then show ?thesis by simp
qed

text \<open>
  C3 at a failing input.  For the Julian Date 2451359.5, half a year from any change of
  year, the equation of time of \<open>salahUtils.ts\<close> is between -6 and 0 hours and that of
  \<open>part_000\<close> between 18 and 24, so they are not within \<open>1e-6\<close> hours of each other.
\<close>

theorem versions_disagree_in_summer:
  "between (- 6) 0 (equationOfTime (calculateSolarParameters (Fin sampleJD)))
   \<and> between 18 24 (equationOfTime (calculateSolarParameters_naive (Fin sampleJD)))
   \<and> \<not> agreeWithin (1 / 1000000)
       (equationOfTime (calculateSolarParameters (Fin sampleJD)))
       (equationOfTime (calculateSolarParameters_naive (Fin sampleJD)))"
proof -
  obtain e d where
    "calculateSolarParameters (Fin sampleJD) = \<lparr>declination = Fin d, equationOfTime = Fin e\<rparr>"
    "calculateSolarParameters_naive (Fin sampleJD)
       = \<lparr>declination = Fin d, equationOfTime = Fin (e + 24)\<rparr>"
    "- 6 < e" "e < 0"
    by (rule sample_solar_parameters)
  then show ?thesis by simp
qed

text \<open>
  C5 at a failing input.  For the Julian Date 2451180 (D = -365) the mean longitude \<open>q\<close>
  and the mean anomaly \<open>g\<close> of \<open>src/unnamed/part_000\<close> are negative when they enter the
  trigonometric functions and the subtraction: the remainder alone does not bring them
  into \<open>[0, 360)\<close>.
\<close>

theorem naive_angles_negative:
  "q_naive (Fin 2451180 - Fin 2451545.0) = Fin (- 79.3022864)
   \<and> g_naive (Fin 2451180 - Fin 2451545.0) = Fin (- 2.2151022 * (pi / 180))"
  by (simp add: q_naive_def g_naive_def toRadians_def rem_id_neg del: rem.simps)

section \<open>Whole turns in the two versions\<close>

lemma sin_minus_turns: "sin (x - (2 * pi) * of_int k) = sin x"
proof -
  have "sin (x - (2 * pi) * of_int k)
          = sin x * cos ((2 * pi) * of_int k) - cos x * sin ((2 * pi) * of_int k)"
    by (rule sin_diff)
  also have "\<dots> = sin x"
    by (simp only: sin_int_2pin cos_int_2pin mult_1_right mult_zero_right diff_zero)
  finally show ?thesis .
qed

lemma cos_minus_turns: "cos (x - (2 * pi) * of_int k) = cos x"
proof -
  have "cos (x - (2 * pi) * of_int k)
          = cos x * cos ((2 * pi) * of_int k) + sin x * sin ((2 * pi) * of_int k)"
    by (rule cos_diff)
  also have "\<dots> = cos x"
    by (simp only: sin_int_2pin cos_int_2pin mult_1_right mult_zero_right add_0_right)
  finally show ?thesis .
qed

lemma deg_shift: "(a - 360 * of_int k) * (pi / 180) = a * (pi / 180) - (2 * pi) * of_int k"
  by (simp add: algebra_simps)

lemma sin_deg_shift: "sin ((a - 360 * of_int k) * (pi / 180)) = sin (a * (pi / 180))"
  unfolding deg_shift by (rule sin_minus_turns)

lemma cos_deg_shift: "cos ((a - 360 * of_int k) * (pi / 180)) = cos (a * (pi / 180))"
  unfolding deg_shift by (rule cos_minus_turns)

lemma sin_double_deg_shift:
  "sin (2 * ((a - 360 * of_int k) * (pi / 180))) = sin (2 * (a * (pi / 180)))"
proof -
  have "2 * ((a - 360 * of_int k) * (pi / 180)) = 2 * (a * (pi / 180)) - (2 * pi) * of_int (2 * k)"
    by (simp add: algebra_simps)
  then show ?thesis by (simp only: sin_minus_turns)
qed

lemma normalizeAngle_shift: "\<exists>k::int. normalizeAngle (Fin a) = Fin (a - 360 * of_int k)"
  using normalizeAngle_Fin by blast

lemma rem_360_shift: "\<exists>k::int. rem (Fin a) (Fin 360) = Fin (a - 360 * of_int k)"
  by auto

lemma sin_toRadians: "Math_sin (toRadians (Fin a)) = Fin (sin (a * (pi / 180)))"
  by (simp add: toRadians_def)

lemma cos_toRadians: "Math_cos (toRadians (Fin a)) = Fin (cos (a * (pi / 180)))"
  by (simp add: toRadians_def)

lemma sin_double_toRadians: "Math_sin (Fin 2 * toRadians (Fin a)) = Fin (sin (2 * (a * (pi / 180))))"
  by (simp add: toRadians_def)

lemma sin_double_Fin: "Math_sin (Fin 2 * Fin x) = Fin (sin (2 * x))"
  by simp

lemma ecliptic_longitude_versions:
  fixes d :: real
  defines "graw \<equiv> 357.529 + 0.98560028 * d"
  defines "qraw \<equiv> 280.459 + 0.98564736 * d"
  defines "c \<equiv> 1.915 * sin (graw * (pi / 180)) + 0.02 * sin (2 * (graw * (pi / 180)))"
  obtains k1 k2 k3 k4 :: int where
    "qDeg (Fin d) = Fin (qraw - 360 * of_int k1)"
    "q_naive (Fin d) = Fin (qraw - 360 * of_int k2)"
    "LDeg (Fin d) = Fin (qraw + c - 360 * of_int k3)"
    "L_naive (Fin d) = Fin (qraw + c - 360 * of_int k4)"
proof -
  obtain j1 :: int where g1: "gDeg (Fin d) = Fin (graw - 360 * of_int j1)"
    using normalizeAngle_shift [of graw] by (auto simp: gDeg_def graw_def)
  obtain j2 :: int where "rem (Fin graw) (Fin 360) = Fin (graw - 360 * of_int j2)"
    using rem_360_shift [of graw] by blast
  then have g2: "g_naive (Fin d) = Fin ((graw - 360 * of_int j2) * (pi / 180))"
    by (simp add: g_naive_def graw_def toRadians_def del: rem.simps)
  obtain k1 :: int where q1: "qDeg (Fin d) = Fin (qraw - 360 * of_int k1)"
    using normalizeAngle_shift [of qraw] by (auto simp: qDeg_def qraw_def)
  obtain k2 :: int where "rem (Fin qraw) (Fin 360) = Fin (qraw - 360 * of_int k2)"
    using rem_360_shift [of qraw] by blast
  then have q2: "q_naive (Fin d) = Fin (qraw - 360 * of_int k2)"
    by (simp add: q_naive_def qraw_def del: rem.simps)
  have c1: "Fin 1.915 * Math_sin (toRadians (gDeg (Fin d)))
              + Fin 0.02 * Math_sin (Fin 2 * toRadians (gDeg (Fin d))) = Fin c"
    unfolding g1 sin_toRadians sin_double_toRadians sin_deg_shift sin_double_deg_shift
    by (simp add: c_def)
  have c2: "Fin 1.915 * Math_sin (g_naive (Fin d))
              + Fin 0.02 * Math_sin (Fin 2 * g_naive (Fin d)) = Fin c"
    unfolding g2 sin_double_Fin Math_sin.simps sin_deg_shift sin_double_deg_shift
    by (simp add: c_def)
  have plus3: "x + y + z = x + (y + z)" for x y z :: number
    by (cases x; cases y; cases z) auto
  have "LDeg (Fin d) = normalizeAngle (Fin (qraw - 360 * of_int k1) + Fin c)"
    unfolding LDeg_def q1 plus3 c1 ..
  then obtain m1 :: int where "LDeg (Fin d) = Fin (qraw - 360 * of_int k1 + c - 360 * of_int m1)"
    using normalizeAngle_shift [of "qraw - 360 * of_int k1 + c"] by auto
  then have L1: "LDeg (Fin d) = Fin (qraw + c - 360 * of_int (k1 + m1))"
    by (simp add: algebra_simps)
  have "L_naive (Fin d) = rem (Fin (qraw - 360 * of_int k2) + Fin c) (Fin 360)"
    unfolding L_naive_def q2 plus3 c2 ..
  then obtain m2 :: int where "L_naive (Fin d) = Fin (qraw - 360 * of_int k2 + c - 360 * of_int m2)"
    using rem_360_shift [of "qraw - 360 * of_int k2 + c"] by auto
  then have L2: "L_naive (Fin d) = Fin (qraw + c - 360 * of_int (k2 + m2))"
    by (simp add: algebra_simps)
  show ?thesis using q1 q2 L1 L2 by (rule that)
qed


section \<open>The bounds of the normalised version\<close>

text \<open>
  For the version of \<open>src/utils/salahUtils.ts\<close> the four position angles are in
  \<open>[0, 360)\<close> for every finite \<open>D\<close>, and the equation of time is strictly between -12
  and 12 hours as long as the cosine of the obliquity is positive, which it is for some
  hundred thousand years on either side of J2000.0: the right ascension then lies within
  a quarter turn of the ecliptic longitude, which lies within two degrees of the mean
  longitude.
\<close>

lemma atan2_polar:
  assumes "x \<noteq> 0 \<or> y \<noteq> 0"
  obtains r where "0 < r" "x = r * cos (atan2 y x)" "y = r * sin (atan2 y x)"
proof -
  consider "0 < x" | "x < 0" "0 \<le> y" | "x < 0" "y < 0" | "x = 0" "0 < y" | "x = 0" "y < 0"
    using assms by linarith
  then show ?thesis
  proof cases
    case 1
    define t where "t = arctan (y / x)"
    have a: "atan2 y x = t" using 1 by (simp add: atan2_def t_def)
    have c: "0 < cos t" unfolding t_def using arctan_bounded [of "y / x"] by (intro cos_gt_zero_pi) auto
    have "sin t / cos t = y / x" using tan_arctan [of "y / x"] by (simp add: tan_def t_def)
    then have "x * sin t = y * cos t" using c 1 by (simp add: field_simps)
    then have p3: "y = (x / cos t) * sin (atan2 y x)" unfolding a using c by (simp add: field_simps)
    have p2: "x = (x / cos t) * cos (atan2 y x)" unfolding a using c by simp
    have p1: "0 < x / cos t" using c 1 by simp
    from p1 p2 p3 show ?thesis by (rule that)
  next
    case 2
    define t where "t = arctan (y / x)"
    have a: "atan2 y x = t + pi" using 2 by (simp add: atan2_def t_def)
    have c: "0 < cos t" unfolding t_def using arctan_bounded [of "y / x"] by (intro cos_gt_zero_pi) auto
    have "sin t / cos t = y / x" using tan_arctan [of "y / x"] by (simp add: tan_def t_def)
    then have "x * sin t = y * cos t" using c 2 by (simp add: field_simps)
    then have p3: "y = (- x / cos t) * sin (atan2 y x)" unfolding a using c by (simp add: field_simps)
    have p2: "x = (- x / cos t) * cos (atan2 y x)" unfolding a using c by simp
    have p1: "0 < - x / cos t" using c 2 by (intro divide_pos_pos) auto
    from p1 p2 p3 show ?thesis by (rule that)
  next
    case 3
    define t where "t = arctan (y / x)"
    have a: "atan2 y x = t - pi" using 3 by (simp add: atan2_def t_def)
    have c: "0 < cos t" unfolding t_def using arctan_bounded [of "y / x"] by (intro cos_gt_zero_pi) auto
    have "sin t / cos t = y / x" using tan_arctan [of "y / x"] by (simp add: tan_def t_def)
    then have "x * sin t = y * cos t" using c 3 by (simp add: field_simps)
    then have p3: "y = (- x / cos t) * sin (atan2 y x)"
      unfolding a using c by (simp add: field_simps sin_diff)
    have p2: "x = (- x / cos t) * cos (atan2 y x)" unfolding a using c by (simp add: cos_diff)
    have p1: "0 < - x / cos t" using c 3 by (intro divide_pos_pos) auto
    from p1 p2 p3 show ?thesis by (rule that)
  next
    case 4
    then have a: "atan2 y x = pi / 2" by (simp add: atan2_def)
    have "0 < y" "x = y * cos (atan2 y x)" "y = y * sin (atan2 y x)"
      unfolding a using 4 by simp_all
    then show ?thesis by (rule that)
  next
    case 5
    then have a: "atan2 y x = - (pi / 2)" by (simp add: atan2_def)
    have "0 < - y" "x = - y * cos (atan2 y x)" "y = - y * sin (atan2 y x)"
      unfolding a using 5 by simp_all
    then show ?thesis by (rule that)
  qed
qed

lemma right_ascension_near_longitude:
  assumes "0 < c"
  shows "0 < cos (atan2 (c * sin x) (cos x) - x)"
proof -
  have "cos x \<noteq> 0 \<or> c * sin x \<noteq> 0"
  proof (cases "cos x = 0")
    case True
    then have "sin x \<noteq> 0" using sin_zero_abs_cos_one [of x] by auto
    then show ?thesis using assms by simp
  qed simp
  then obtain r where r: "0 < r" "cos x = r * cos (atan2 (c * sin x) (cos x))"
    "c * sin x = r * sin (atan2 (c * sin x) (cos x))"
    by (rule atan2_polar)
  define a where "a = atan2 (c * sin x) (cos x)"
  have "r * cos (a - x) = (r * cos a) * cos x + (r * sin a) * sin x"
    by (simp add: cos_diff algebra_simps)
  also have "\<dots> = (cos x)\<^sup>2 + c * (sin x)\<^sup>2"
    using r(2,3) by (simp add: a_def power2_eq_square)
  finally have e: "r * cos (a - x) = (cos x)\<^sup>2 + c * (sin x)\<^sup>2" .
  have "0 < (cos x)\<^sup>2 + c * (sin x)\<^sup>2"
  proof (cases "sin x = 0")
    case True
    then have "(cos x)\<^sup>2 = 1" using sin_cos_squared_add [of x] by simp
    then show ?thesis using True by simp
  next
    case False
    then have "0 < c * (sin x)\<^sup>2" using assms by simp
    moreover have "0 \<le> (cos x)\<^sup>2" by simp
    ultimately show ?thesis by linarith
  qed
  then have "0 < r * cos (a - x)" using e by simp
  then show ?thesis using r(1) by (simp add: zero_less_mult_iff a_def)
qed


lemma opposite_direction:
  fixes m :: int
  assumes "a = qr - s * pi - (2 * pi) * of_int m" "s = 1 \<or> s = - 1" "x = qr + cr"
    "- (pi / 2) < cr" "cr < pi / 2"
  shows "cos (a - x) < 0"
proof -
  have "a - x = - (cr + s * pi) - (2 * pi) * of_int m" using assms(1,3) by simp
  then have "cos (a - x) = cos (- (cr + s * pi))" by (simp only: cos_minus_turns)
  also have "\<dots> = cos (cr + s * pi)" by (rule cos_minus)
  also have "\<dots> = - cos cr" using assms(2) by (auto simp: cos_diff)
  finally have "cos (a - x) = - cos cr" .
  moreover have "0 < cos cr" using assms(4,5) by (rule cos_gt_zero_pi)
  ultimately show ?thesis by simp
qed

lemma equation_of_centre_small:
  "- (pi / 2) < (1.915 * sin u + 0.02 * sin v) * (pi / 180)"
  "(1.915 * sin u + 0.02 * sin v) * (pi / 180) < pi / 2"
proof -
  define p q where "p = sin u" and "q = sin v"
  define w where "w = 1.915 * p + 0.02 * q"
  have "- 1 \<le> p" "p \<le> 1" "- 1 \<le> q" "q \<le> 1" by (simp_all add: p_def q_def)
  then have w: "- 90 < w" "w < 90" unfolding w_def by simp_all
  have "(- 90) * (pi / 180) < w * (pi / 180)" using w(1) by (rule deg_strict_mono)
  moreover have "w * (pi / 180) < 90 * (pi / 180)" using w(2) by (rule deg_strict_mono)
  ultimately have "- (pi / 2) < w * (pi / 180)" "w * (pi / 180) < pi / 2" by simp_all
  then show "- (pi / 2) < (1.915 * sin u + 0.02 * sin v) * (pi / 180)"
    "(1.915 * sin u + 0.02 * sin v) * (pi / 180) < pi / 2"
    unfolding w_def p_def q_def by blast+
qed

lemma normalized_equation_of_time_strict:
  fixes jd :: real
  assumes "0 < cos ((23.439 - 0.00000036 * (jd - 2451545)) * (pi / 180))"
  shows "between (- 12) 12 (equationOfTime (calculateSolarParameters (Fin jd)))"
proof -
  define d where "d = jd - 2451545"
  have D: "Fin jd - Fin 2451545.0 = Fin d" by (simp add: d_def)
  define qraw where "qraw = 280.459 + 0.98564736 * d"
  define c where "c = 1.915 * sin ((357.529 + 0.98560028 * d) * (pi / 180))
                      + 0.02 * sin (2 * ((357.529 + 0.98560028 * d) * (pi / 180)))"
  obtain k0 k2 k3 k4 :: int where
    L1: "LDeg (Fin d) = Fin (qraw + c - 360 * of_int k3)"
    using ecliptic_longitude_versions [of d] unfolding qraw_def c_def by blast
  define k1 where "k1 = \<lfloor>qraw / 360\<rfloor>"
  have q1: "qDeg (Fin d) = Fin (qraw - 360 * of_int k1)"
    by (simp add: qDeg_def normalizeAngle_Fin qraw_def k1_def)
  have qb: "0 \<le> qraw - 360 * of_int k1" "qraw - 360 * of_int k1 < 360"
    unfolding k1_def by (rule floor_mod_range)+
  define eps where "eps = (23.439 - 0.00000036 * d) * (pi / 180)"
  have eps: "epsilon (Fin d) = Fin eps" by (simp add: epsilon_def toRadians_def eps_def)
  have ce: "0 < cos eps" using assms by (simp add: eps_def d_def)
  define x where "x = (qraw + c) * (pi / 180)"
  have s1: "Math_sin (toRadians (LDeg (Fin d))) = Fin (sin x)"
    and c1: "Math_cos (toRadians (LDeg (Fin d))) = Fin (cos x)"
    unfolding L1 sin_toRadians cos_toRadians sin_deg_shift cos_deg_shift x_def by simp_all
  define a where "a = atan2 (cos eps * sin x) (cos x)"
  have pos: "0 < cos (a - x)" unfolding a_def using ce by (rule right_ascension_near_longitude)
  define A where "A = a * (180 / pi)"
  have aA: "a = A * (pi / 180)" by (simp add: A_def)
  define k5 where "k5 = \<lfloor>A / 360\<rfloor>"
  have "RAdeg (Fin d) = normalizeAngle (Fin A)"
    unfolding RAdeg_def eps s1 c1 by (simp add: toDegrees_def A_def a_def)
  then have RA1: "RAdeg (Fin d) = Fin (A - 360 * of_int k5)"
    by (simp add: normalizeAngle_Fin k5_def)
  have rb: "0 \<le> A - 360 * of_int k5" "A - 360 * of_int k5 < 360"
    unfolding k5_def by (rule floor_mod_range)+
  define e0 where "e0 = (qraw - 360 * of_int k1) / 15 - (A - 360 * of_int k5) / 15"
  define qn rn where "qn = qraw - 360 * of_int k1" and "rn = A - 360 * of_int k5"
  have "0 \<le> qn / 15" "qn / 15 < 24" "0 \<le> rn / 15" "rn / 15 < 24"
    using qb rb by (simp_all add: qn_def rn_def)
  then have "- 24 < qn / 15 - rn / 15" "qn / 15 - rn / 15 < 24" by linarith+
  then have eb: "- 24 < e0" "e0 < 24" by (simp_all add: e0_def qn_def rn_def)
  have h: "qDeg (Fin d) / Fin 15 - RAdeg (Fin d) / Fin 15 = Fin e0"
    by (simp add: q1 RA1 e0_def)
  have cr: "- (pi / 2) < c * (pi / 180)" "c * (pi / 180) < pi / 2"
    unfolding c_def by (rule equation_of_centre_small)+
  have ne: "e0 \<noteq> 12 * s" if s: "s = 1 \<or> s = - 1" for s :: real
  proof
    assume "e0 = 12 * s"
    then have "A = qraw - 180 * s - 360 * of_int (k1 - k5)"
      by (simp add: e0_def field_simps)
    then have "a = (qraw - 180 * s - 360 * of_int (k1 - k5)) * (pi / 180)"
      unfolding aA by (rule arg_cong)
    also have "\<dots> = qraw * (pi / 180) - s * pi - (2 * pi) * of_int (k1 - k5)"
      by (simp add: algebra_simps)
    finally have 1: "a = qraw * (pi / 180) - s * pi - (2 * pi) * of_int (k1 - k5)" .
    have 2: "x = qraw * (pi / 180) + c * (pi / 180)" by (simp add: x_def algebra_simps)
    have "cos (a - x) < 0" by (rule opposite_direction [OF 1 s 2 cr])
    then show False using pos by simp
  qed
  have "e0 \<noteq> 12" "e0 \<noteq> - 12" using ne [of 1] ne [of "- 1"] by simp_all
  then show ?thesis
    unfolding calculateSolarParameters_def Let_def D h using eb by auto
qed


lemma normalized_angles_in_range:
  fixes d :: real
  shows "\<exists>v. gDeg (Fin d) = Fin v \<and> 0 \<le> v \<and> v < 360"
    and "\<exists>v. qDeg (Fin d) = Fin v \<and> 0 \<le> v \<and> v < 360"
    and "\<exists>v. LDeg (Fin d) = Fin v \<and> 0 \<le> v \<and> v < 360"
    and "\<exists>v. RAdeg (Fin d) = Fin v \<and> 0 \<le> v \<and> v < 360"
proof -
  show "\<exists>v. gDeg (Fin d) = Fin v \<and> 0 \<le> v \<and> v < 360"
    using floor_mod_range by (simp add: gDeg_def normalizeAngle_Fin)
  show "\<exists>v. qDeg (Fin d) = Fin v \<and> 0 \<le> v \<and> v < 360"
    using floor_mod_range by (simp add: qDeg_def normalizeAngle_Fin)
  obtain k1 k2 k3 k4 :: int and b where L: "LDeg (Fin d) = Fin (b - 360 * of_int k3)"
    using ecliptic_longitude_versions [of d] by metis
  then show "\<exists>v. LDeg (Fin d) = Fin v \<and> 0 \<le> v \<and> v < 360"
    using normalizeAngle_cases unfolding LDeg_def by (metis number.distinct(5))
  have "\<exists>a. toDegrees (Math_atan2 (Math_cos (epsilon (Fin d)) * Math_sin (toRadians (LDeg (Fin d))))
          (Math_cos (toRadians (LDeg (Fin d))))) = Fin a"
    unfolding L by (simp add: epsilon_def toRadians_def toDegrees_def)
  then obtain a where "RAdeg (Fin d) = normalizeAngle (Fin a)" unfolding RAdeg_def by auto
  then show "\<exists>v. RAdeg (Fin d) = Fin v \<and> 0 \<le> v \<and> v < 360"
    using floor_mod_range by (simp add: normalizeAngle_Fin)
qed

section \<open>Rounding to a double\<close>

text \<open>
  The rounded value is within half a unit in the last place of the exact one; for
  magnitudes below 64, which covers every sum of the assembling lines, that is at most
  \<open>2 ^ (- 48)\<close>.
\<close>

lemma round_error: "\<bar>of_int (roundTiesToEven r) - r\<bar> \<le> 1 / 2"
proof -
  have "of_int \<lfloor>r\<rfloor> \<le> r" "r < of_int \<lfloor>r\<rfloor> + 1" by linarith+
  then show ?thesis by (auto simp: roundTiesToEven_def Let_def)
qed

lemma roundTiesToEven_of_int [simp]: "roundTiesToEven (of_int m) = m"
  by (simp add: roundTiesToEven_def)

lemma roundTiesToEven_ge: "of_int m \<le> r \<Longrightarrow> m \<le> roundTiesToEven r"
proof -
  assume "of_int m \<le> r"
  then have "m \<le> \<lfloor>r\<rfloor>" by (simp add: le_floor_iff)
  then show ?thesis by (auto simp: roundTiesToEven_def Let_def)
qed

lemma roundTiesToEven_le: "r \<le> of_int m \<Longrightarrow> roundTiesToEven r \<le> m"
proof -
  assume a: "r \<le> of_int m"
  show ?thesis
  proof (cases "r = of_int m")
    case True then show ?thesis by simp
  next
    case False
    then have "r < of_int m" using a by simp
    then have "\<lfloor>r\<rfloor> < m" by (simp add: floor_less_iff)
    then show ?thesis by (auto simp: roundTiesToEven_def Let_def)
  qed
qed

lemma ulp_pos: "0 < ulp x" by (simp add: ulp_def)

lemma toDouble_error_ulp: "\<bar>toDouble x - x\<bar> \<le> ulp x / 2"
proof (cases "x = 0")
  case True then show ?thesis using ulp_pos [of 0] by (simp add: toDouble_def)
next
  case False
  define u where "u = ulp x"
  have u: "0 < u" unfolding u_def by (rule ulp_pos)
  have "toDouble x - x = u * (of_int (roundTiesToEven (x / u)) - x / u)"
    using False u by (simp add: toDouble_def u_def algebra_simps)
  then have "\<bar>toDouble x - x\<bar> = u * \<bar>of_int (roundTiesToEven (x / u)) - x / u\<bar>"
    using u by (simp add: abs_mult)
  also have "\<dots> \<le> u * (1 / 2)" using u round_error by (intro mult_left_mono) auto
  finally show ?thesis by (simp add: u_def)
qed

lemma ulp_small:
  assumes "\<bar>x\<bar> < 64" "x \<noteq> 0"
  shows "ulp x \<le> 1 / 2 ^ 47"
proof -
  have "log 2 \<bar>x\<bar> < log 2 64" using assms by (intro log_less) auto
  moreover have "log 2 64 = 6" using log_pow_cancel [of 2 6] by simp
  ultimately have "\<lfloor>log 2 \<bar>x\<bar>\<rfloor> \<le> 5" by (simp add: floor_le_iff)
  then have "max \<lfloor>log 2 \<bar>x\<bar>\<rfloor> (- 1022) \<le> 5" by simp
  then have "(of_int (max \<lfloor>log 2 \<bar>x\<bar>\<rfloor> (- 1022)) :: real) - 52 \<le> - 47" by linarith
  then have "ulp x \<le> 2 powr (- 47)" unfolding ulp_def by (intro powr_mono) auto
  also have "(2::real) powr (- 47) = 1 / 2 ^ 47" by (simp add: powr_minus_divide)
  finally show ?thesis .
qed

lemma toDouble_error:
  assumes "\<bar>x\<bar> < 64"
  shows "\<bar>toDouble x - x\<bar> \<le> 1 / 2 ^ 48"
proof (cases "x = 0")
  case True then show ?thesis by (simp add: toDouble_def)
next
  case False
  have "\<bar>toDouble x - x\<bar> \<le> ulp x / 2" by (rule toDouble_error_ulp)
  also have "\<dots> \<le> (1 / 2 ^ 47) / 2" using ulp_small [OF assms False] by simp
  finally show ?thesis by simp
qed

text \<open>
  Within one binade the doubles are the multiples of a fixed power of two, which gives
  the rounded value of a concrete fraction by one integer rounding.
\<close>

lemma huge: "(65::real) < 2 ^ 1024"
proof -
  have "(2::real) ^ 7 \<le> 2 ^ 1024" by (intro power_increasing) auto
  then show ?thesis by simp
qed

lemma double_small:
  assumes "\<bar>x\<bar> < 64"
  shows "double (Fin x) = Fin (toDouble x)"
proof -
  have "\<bar>toDouble x - x\<bar> \<le> 1 / 2 ^ 48" using assms by (rule toDouble_error)
  then have "\<bar>toDouble x\<bar> \<le> \<bar>x\<bar> + 1 / 2 ^ 48" by linarith
  then have "\<bar>toDouble x\<bar> < 65" using assms by simp
  then have "\<not> 2 ^ 1024 \<le> \<bar>toDouble x\<bar>" using huge by linarith
  then show ?thesis by (simp add: double_def)
qed

lemma ulp_binade:
  fixes k :: nat
  assumes "2 ^ k \<le> \<bar>y\<bar>" "\<bar>y\<bar> < 2 * 2 ^ k" "k \<le> 52"
  shows "ulp y = 1 / 2 ^ (52 - k)"
proof -
  have pos: "0 < \<bar>y\<bar>" using assms(1) by (smt (verit) zero_less_power)
  have "(2::real) powr (of_int (int k)) = 2 ^ k" by (simp add: powr_realpow)
  moreover have "(2::real) powr (of_int (int k) + 1) = 2 * 2 ^ k"
    by (simp add: powr_add powr_realpow)
  ultimately have "\<lfloor>log 2 \<bar>y\<bar>\<rfloor> = int k"
    using assms(1,2) floor_log_eq_powr_iff [of "\<bar>y\<bar>" 2 "int k"] pos by simp
  then have "ulp y = 2 powr (of_int (int k) - 52)" by (simp add: ulp_def)
  also have "of_int (int k) - (52::real) = - real (52 - k)" using assms(3) by simp
  also have "(2::real) powr (- real (52 - k)) = 1 / 2 ^ (52 - k)"
    by (simp add: powr_minus_divide powr_realpow)
  finally show ?thesis .
qed

lemma toDouble_binade:
  fixes k :: nat
  assumes "2 ^ k \<le> \<bar>y\<bar>" "\<bar>y\<bar> < 2 * 2 ^ k" "k \<le> 52"
  shows "toDouble y = of_int (roundTiesToEven (y * 2 ^ (52 - k))) / 2 ^ (52 - k)"
proof -
  have "y \<noteq> 0" using assms(1) by (smt (verit) zero_less_power abs_zero)
  then show ?thesis by (simp add: toDouble_def ulp_binade [OF assms])
qed

lemma ulp_binade_neg:
  fixes k :: nat
  assumes "1 / 2 ^ k \<le> \<bar>y\<bar>" "\<bar>y\<bar> < 2 / 2 ^ k" "k \<le> 1022"
  shows "ulp y = 1 / 2 ^ (52 + k)"
proof -
  have pos: "0 < \<bar>y\<bar>" using assms(1) by (smt (verit) zero_less_power divide_pos_pos)
  have 1: "(2::real) powr (of_int (- int k)) = 1 / 2 ^ k"
    by (simp add: powr_minus_divide powr_realpow)
  have "(2::real) powr (of_int (- int k) + 1) = 2 powr (of_int (- int k)) * 2 powr 1"
    by (rule powr_add)
  then have 2: "(2::real) powr (of_int (- int k) + 1) = 2 / 2 ^ k" using 1 by simp
  have "\<lfloor>log 2 \<bar>y\<bar>\<rfloor> = - int k"
    using assms(1,2) floor_log_eq_powr_iff [of "\<bar>y\<bar>" 2 "- int k"] pos 1 2 by simp
  moreover have "max (- int k) (- 1022) = - int k" using assms(3) by simp
  ultimately have "ulp y = 2 powr (of_int (- int k) - 52)" by (simp add: ulp_def)
  also have "of_int (- int k) - (52::real) = - real (52 + k)" by simp
  also have "(2::real) powr (- real (52 + k)) = 1 / (2 powr real (52 + k))"
    by (rule powr_minus_divide)
  also have "\<dots> = 1 / 2 ^ (52 + k)" by (subst powr_realpow) auto
  finally show ?thesis .
qed

lemma toDouble_binade_neg:
  fixes k :: nat
  assumes "1 / 2 ^ k \<le> \<bar>y\<bar>" "\<bar>y\<bar> < 2 / 2 ^ k" "k \<le> 1022"
  shows "toDouble y = of_int (roundTiesToEven (y * 2 ^ (52 + k))) / 2 ^ (52 + k)"
proof -
  have "y \<noteq> 0" using assms(1) by (smt (verit) zero_less_power divide_pos_pos abs_zero)
  then show ?thesis by (simp add: toDouble_def ulp_binade_neg [OF assms])
qed

lemma toDouble_ge_24:
  assumes "24 \<le> y" "y < 32"
  shows "24 \<le> toDouble y"
proof -
  have t: "toDouble y = of_int (roundTiesToEven (y * 2 ^ 48)) / 2 ^ 48"
    using toDouble_binade [of 4 y] assms by simp
  have "of_int (24 * 2 ^ 48) \<le> y * 2 ^ 48" using assms by simp
  then have "24 * 2 ^ 48 \<le> roundTiesToEven (y * 2 ^ 48)" by (rule roundTiesToEven_ge)
  then have "(of_int (24 * 2 ^ 48) :: real) \<le> of_int (roundTiesToEven (y * 2 ^ 48))"
    by (simp only: of_int_le_iff)
  then show ?thesis unfolding t by (simp add: field_simps)
qed

lemma toDouble_ge_48:
  assumes "48 \<le> y" "y < 64"
  shows "48 \<le> toDouble y"
proof -
  have t: "toDouble y = of_int (roundTiesToEven (y * 2 ^ 47)) / 2 ^ 47"
    using toDouble_binade [of 5 y] assms by simp
  have "of_int (48 * 2 ^ 47) \<le> y * 2 ^ 47" using assms by simp
  then have "48 * 2 ^ 47 \<le> roundTiesToEven (y * 2 ^ 47)" by (rule roundTiesToEven_ge)
  then have "(of_int (48 * 2 ^ 47) :: real) \<le> of_int (roundTiesToEven (y * 2 ^ 47))"
    by (simp only: of_int_le_iff)
  then show ?thesis unfolding t by (simp add: field_simps)
qed

lemma rem_second: "24 \<le> t \<Longrightarrow> t < 48 \<Longrightarrow> rem (Fin t) (Fin 24) = Fin (t - 24)"
proof -
  assume a: "24 \<le> t" "t < 48"
  have "rem (Fin ((t - 24) + 24)) (Fin 24) = rem (Fin (t - 24)) (Fin 24)"
    using a by (intro rem_shift) auto
  also have "\<dots> = Fin (t - 24)" using a by (intro rem_id) auto
  finally show ?thesis by simp
qed

lemma rem_third: "48 \<le> t \<Longrightarrow> t < 72 \<Longrightarrow> rem (Fin t) (Fin 24) = Fin (t - 48)"
proof -
  assume a: "48 \<le> t" "t < 72"
  have "rem (Fin ((t - 24) + 24)) (Fin 24) = rem (Fin (t - 24)) (Fin 24)"
    using a by (intro rem_shift) auto
  also have "\<dots> = Fin (t - 24 - 24)" using a by (intro rem_second) auto
  finally show ?thesis by simp
qed

lemma double_binade:
  fixes k :: nat
  assumes "2 ^ k \<le> \<bar>y\<bar>" "\<bar>y\<bar> < 2 * 2 ^ k" "k \<le> 5"
    and "roundTiesToEven (y * 2 ^ (52 - k)) = m"
  shows "double (Fin y) = Fin (of_int m / 2 ^ (52 - k))"
proof -
  have "(2::real) * 2 ^ k = 2 ^ Suc k" by simp
  also have "\<dots> \<le> 2 ^ 6" using assms(3) by (intro power_increasing) auto
  finally have "\<bar>y\<bar> < 64" using assms(2) by simp
  then have "double (Fin y) = Fin (toDouble y)" by (rule double_small)
  moreover have "toDouble y = of_int m / 2 ^ (52 - k)"
    using toDouble_binade [of k y] assms by simp
  ultimately show ?thesis by simp
qed

lemma double_binade_neg:
  fixes k :: nat
  assumes "1 / 2 ^ k \<le> \<bar>y\<bar>" "\<bar>y\<bar> < 2 / 2 ^ k" "k \<le> 1022"
    and "roundTiesToEven (y * 2 ^ (52 + k)) = m"
  shows "double (Fin y) = Fin (of_int m / 2 ^ (52 + k))"
proof -
  have "(1::real) \<le> 2 ^ k" by simp
  then have "(2::real) / 2 ^ k \<le> 2" by (simp add: field_simps)
  then have "\<bar>y\<bar> < 64" using assms(2) by simp
  then have "double (Fin y) = Fin (toDouble y)" by (rule double_small)
  moreover have "toDouble y = of_int m / 2 ^ (52 + k)"
    using toDouble_binade_neg [of k y] assms by simp
  ultimately show ?thesis by simp
qed



lemma sample_sum:
  "double (Fin (20399114570943523 / 1125899906842624)) = Fin (5099778642735881 / 281474976710656)"
  using double_binade [of 4 "20399114570943523 / 1125899906842624" 5099778642735881]
  by (simp add: roundTiesToEven_def Let_def)

lemma sample_sum_24:
  "double (Fin (11855178083791625 / 281474976710656)) = Fin (1481897260473953 / 35184372088832)"
  using double_binade [of 5 "11855178083791625 / 281474976710656" 5927589041895812]
  by (simp add: roundTiesToEven_def Let_def)

lemma sample_offset:
  "double (Fin (1 / 20)) = Fin (3602879701896397 / 72057594037927936)"
  using double_binade_neg [of 5 "1 / 20" 7205759403792794]
  by (simp add: roundTiesToEven_def Let_def)

lemma sample_sunset_offset:
  "double (Fin (1309146212242281677 / 72057594037927936)) = Fin (5113852391571413 / 281474976710656)"
  using double_binade [of 4 "1309146212242281677 / 72057594037927936" 5113852391571413]
  by (simp add: roundTiesToEven_def Let_def)

lemma west_sum:
  "double (Fin (27004394024420243 / 1125899906842624)) = Fin (6751098506105061 / 281474976710656)"
  using double_binade [of 4 "27004394024420243 / 1125899906842624" 6751098506105061]
  by (simp add: roundTiesToEven_def Let_def)

lemma west_sum_24:
  "double (Fin (13506497947160805 / 281474976710656)) = Fin (3376624486790201 / 70368744177664)"
  using double_binade [of 5 "13506497947160805 / 281474976710656" 6753248973580402]
  by (simp add: roundTiesToEven_def Let_def)

lemma west_sunset_offset:
  "double (Fin (1731884097264791757 / 72057594037927936)) = Fin (6765172254940593 / 281474976710656)"
  using double_binade [of 4 "1731884097264791757 / 72057594037927936" 6765172254940593]
  by (simp add: roundTiesToEven_def Let_def)

lemma west_sunset_offset_24:
  "double (Fin (13520571695996337 / 281474976710656)) = Fin (845035730999771 / 17592186044416)"
  using double_binade [of 5 "13520571695996337 / 281474976710656" 6760285847998168]
  by (simp add: roundTiesToEven_def Let_def)

lemma west_sunset_offset_fixed:
  "double (Fin (6765172254940593 / 281474976710656)) = Fin (6765172254940593 / 281474976710656)"
  using double_binade [of 4 "6765172254940593 / 281474976710656" 6765172254940593]
  by (simp add: roundTiesToEven_def Let_def)

section \<open>The symmetry around Dhuhr in double precision\<close>






lemma sample_Sunset: "Sunset sampleAssembled = Fin (637472330341985 / 35184372088832)"
  by (simp add: sampleAssembled_def assembleTimes_def Let_def sampleNoon_def sampleShuruqHours_def
      sample_sum sample_sum_24 rem_second del: rem.simps)




section \<open>Maghrib and the offset after Sunset in double precision\<close>

lemma offset_bounds:
  obtains c where "double (Fin 3 / Fin 60) = Fin c" "1 / 32 < c" "c < 1 / 16"
proof -
  have s: "\<bar>(1::real) / 20\<bar> < 64" by simp
  have "\<bar>toDouble (1 / 20) - 1 / 20\<bar> \<le> 1 / 2 ^ 48" using s by (rule toDouble_error)
  then have "1 / 20 - 1 / 2 ^ 48 \<le> toDouble (1 / 20)" "toDouble (1 / 20) \<le> 1 / 20 + 1 / 2 ^ 48"
    by linarith+
  then have "1 / 32 < toDouble (1 / 20)" "toDouble (1 / 20) < 1 / 16" by simp_all
  moreover have "double (Fin 3 / Fin 60) = Fin (toDouble (1 / 20))"
    using double_small [OF s] by simp
  ultimately show ?thesis by (intro that [of "toDouble (1 / 20)"])
qed

lemma maghrib_step:
  assumes "0 \<le> s" "s < 24"
  defines "X \<equiv> double (Fin s + double (Fin 3 / Fin 60))"
  defines "M \<equiv> rem (double (X + Fin 24)) (Fin 24)"
  shows "agreeWithin (1 / 2 ^ 47) M (frac24 X)" "X < Fin 24 \<longrightarrow> M = frac24 X"
proof -
  obtain c where c: "double (Fin 3 / Fin 60) = Fin c" "1 / 32 < c" "c < 1 / 16"
    by (rule offset_bounds)
  define x where "x = toDouble (s + c)"
  have small: "\<bar>s + c\<bar> < 64" using assms(1,2) c by simp
  have ex: "\<bar>x - (s + c)\<bar> \<le> 1 / 2 ^ 48" unfolding x_def using small by (rule toDouble_error)
  have X: "X = Fin x" unfolding X_def c x_def using double_small [OF small] by simp
  have "s + c - 1 / 2 ^ 48 \<le> x" "x \<le> s + c + 1 / 2 ^ 48" using ex by linarith+
  then have xb: "0 < x" "x < 25" using assms(1,2) c by simp_all
  define m where "m = toDouble (x + 24)"
  have small2: "\<bar>x + 24\<bar> < 64" using xb by simp
  have em: "\<bar>m - (x + 24)\<bar> \<le> 1 / 2 ^ 48" unfolding m_def using small2 by (rule toDouble_error)
  have M: "M = rem (Fin m) (Fin 24)"
    unfolding M_def X m_def using double_small [OF small2] by simp
  show "X < Fin 24 \<longrightarrow> M = frac24 X"
  proof
    assume "X < Fin 24"
    then have "x < 24" by (simp add: X)
    then have "rem (Fin x) (Fin 24) = Fin x" using xb by (intro rem_id) auto
    then show "M = frac24 X" unfolding M_def frac24_def X by simp
  qed
  show "agreeWithin (1 / 2 ^ 47) M (frac24 X)"
  proof (cases "x < 24")
    case True
    then have "rem (Fin x) (Fin 24) = Fin x" using xb by (intro rem_id) auto
    then have "frac24 X = M" unfolding M_def frac24_def X by simp
    moreover obtain r where "M = Fin r" unfolding M by simp
    ultimately show ?thesis by simp
  next
    case False
    then have x: "24 \<le> x" "x < 32" using xb by simp_all
    have r1: "rem (Fin x) (Fin 24) = Fin (x - 24)" using x by (intro rem_second) auto
    define f where "f = toDouble x"
    have small3: "\<bar>x\<bar> < 64" using x by simp
    have ef: "\<bar>f - x\<bar> \<le> 1 / 2 ^ 48" unfolding f_def using small3 by (rule toDouble_error)
    have f24: "24 \<le> f" unfolding f_def using x by (rule toDouble_ge_24)
    have tiny: "(1::real) / 2 ^ 48 < 1" by simp
    have "f < 48" using ef x tiny by linarith
    then have r2: "rem (Fin f) (Fin 24) = Fin (f - 24)" using f24 by (intro rem_second)
    have F: "frac24 X = Fin (f - 24)"
      unfolding frac24_def X r1 using double_small [OF small3] r2 by (simp add: f_def)
    have m48: "48 \<le> m" unfolding m_def using x by (intro toDouble_ge_48) auto
    have "m < 72" using em x tiny by linarith
    then have Mv: "M = Fin (m - 48)" unfolding M using m48 by (intro rem_third)
    have "\<bar>(m - 48) - (f - 24)\<bar> \<le> \<bar>m - (x + 24)\<bar> + \<bar>f - x\<bar>" by linarith
    also have "\<dots> \<le> 1 / 2 ^ 48 + 1 / 2 ^ 48" using em ef by linarith
    finally have "\<bar>(m - 48) - (f - 24)\<bar> \<le> 1 / 2 ^ 47" by simp
    then show ?thesis unfolding Mv F by simp
  qed
qed

text \<open>
  C8, as the program computes it.  Whenever the returned Sunset is a time of day,
  Maghrib is line 95's \<open>(sunset + maghribOffset + 24) % 24\<close> with the quotient \<open>3 / 60\<close>
  and both sums rounded.  It is within \<open>2 ^ (- 47)\<close> hours of
  \<open>frac24(Sunset + 3 / 60)\<close>, and equal to it when the rounded sum \<open>Sunset + 3 / 60\<close> is
  below 24, so when Maghrib falls before midnight.
\<close>

theorem Maghrib_near_frac24:
  fixes noon fajrHours ishaHours shuruqHours asrHours :: number
  defines "p \<equiv> assembleTimes noon fajrHours ishaHours shuruqHours asrHours"
  assumes "Sunset p = Fin s" "0 \<le> s" "s < 24"
  shows "Maghrib p = rem (double (double (Sunset p + double (Fin 3 / Fin 60)) + Fin 24)) (Fin 24)
         \<and> agreeWithin (1 / 2 ^ 47) (Maghrib p) (frac24 (double (Sunset p + double (Fin 3 / Fin 60))))
         \<and> (double (Sunset p + double (Fin 3 / Fin 60)) < Fin 24
              \<longrightarrow> Maghrib p = frac24 (double (Sunset p + double (Fin 3 / Fin 60))))"
proof -
  have m: "Maghrib p = rem (double (double (Sunset p + double (Fin 3 / Fin 60)) + Fin 24)) (Fin 24)"
    by (simp add: p_def assembleTimes_def Let_def del: rem.simps)
  show ?thesis
    unfolding m unfolding assms(2) using maghrib_step [OF assms(3,4)] by simp
qed

lemma west_Sunset: "Sunset sampleAssembledWest = Fin (1687774626526265 / 70368744177664)"
  by (simp add: sampleAssembledWest_def assembleTimes_def Let_def sampleNoonWest_def sampleShuruqHours_def
      west_sum west_sum_24 rem_second del: rem.simps)

lemma west_Maghrib: "Maghrib sampleAssembledWest = Fin (610800867803 / 17592186044416)"
  by (simp add: sampleAssembledWest_def assembleTimes_def Let_def sampleNoonWest_def sampleShuruqHours_def
      west_sum west_sum_24 sample_offset west_sunset_offset west_sunset_offset_24
      rem_second rem_third del: rem.simps)

lemma west_frac24:
  "frac24 (double (Sunset sampleAssembledWest + double (Fin 3 / Fin 60))) = Fin (9772813884849 / 281474976710656)"
  by (simp add: west_Sunset sample_offset west_sunset_offset west_sunset_offset_fixed
      frac24_def rem_second del: rem.simps)

text \<open>
  C8 as stated, with equality, fails when \<open>Sunset + 3 / 60\<close> passes midnight.  On the
  doubles of the call \<open>calculatePrayerTimes(0, -88, '1999-06-30')\<close> the returned Sunset is
  \<open>23.984720009569074\<close> and the returned Maghrib \<open>0.03472000956907095\<close>, while
  \<open>frac24(Sunset + 3 / 60)\<close> is \<open>0.034720009569074506\<close>: the code rounds the sum near 48,
  where doubles are twice as far apart as near 24.
\<close>

theorem Maghrib_not_frac24_past_midnight:
  "Sunset sampleAssembledWest = Fin (1687774626526265 / 70368744177664)
   \<and> Maghrib sampleAssembledWest = Fin (610800867803 / 17592186044416)
   \<and> frac24 (double (Sunset sampleAssembledWest + double (Fin 3 / Fin 60))) = Fin (9772813884849 / 281474976710656)
   \<and> Maghrib sampleAssembledWest
       \<noteq> frac24 (double (Sunset sampleAssembledWest + double (Fin 3 / Fin 60)))"
  unfolding west_frac24 unfolding west_Maghrib west_Sunset by simp

lemma sample_before_midnight:
  "double (Sunset sampleAssembled + double (Fin 3 / Fin 60)) < Fin 24"
  by (simp add: sample_Sunset sample_offset sample_sunset_offset)

text \<open>
  The theorem of C8 on the doubles of the call \<open>calculatePrayerTimes(0, 0, '1999-06-30')\<close>,
  where Sunset is \<open>18.118053342902414\<close> and Maghrib falls before midnight.
\<close>

theorem Maghrib_near_frac24_witness:
  "Sunset sampleAssembled = Fin (637472330341985 / 35184372088832)
   \<and> double (Sunset sampleAssembled + double (Fin 3 / Fin 60)) < Fin 24
   \<and> Maghrib sampleAssembled
       = frac24 (double (Sunset sampleAssembled + double (Fin 3 / Fin 60)))"
proof -
  have 1: "(0::real) \<le> 637472330341985 / 35184372088832" by simp
  have 2: "(637472330341985 / 35184372088832 :: real) < 24" by simp
  note t = Maghrib_near_frac24 [OF sample_Sunset [unfolded sampleAssembled_def] 1 2,
      folded sampleAssembled_def]
  from t sample_before_midnight sample_Sunset show ?thesis by blast
qed

end
